theory Spec2Isabelle
  imports Complex_Main "HOL-Library.Word"
begin

section \<open>Data model (package models)\<close>

text \<open>
  Go's \<^verbatim>\<open>time.Duration\<close> is an \<^verbatim>\<open>int64\<close> count of nanoseconds. It is modelled as a
  64-bit word: \<open>+\<close>, \<open>-\<close> and \<open>*\<close> wrap around as Go's do, \<open>sint\<close> reads the signed value,
  and Go's \<^verbatim>\<open><\<close>, \<^verbatim>\<open><=\<close> on durations are the signed comparisons \<open><s\<close>, \<open>\<le>s\<close>.
\<close>

type_synonym duration = "64 word"

record CaptionEntry =
  StartTime :: duration
  EndTime :: duration
  Text :: string

section \<open>Coverage evaluator (package utils)\<close>

definition MaxDuration :: "duration \<Rightarrow> duration \<Rightarrow> duration" where
  "MaxDuration a b = (if b <s a then a else b)"

definition MinDuration :: "duration \<Rightarrow> duration \<Rightarrow> duration" where
  "MinDuration a b = (if a <s b then a else b)"

text \<open>
  The body of the \<^verbatim>\<open>for _, caption := range captions\<close> loop of \<^verbatim>\<open>ValidateCoverage\<close>:
  the accumulator \<^verbatim>\<open>coveredDuration\<close> after one more caption.
\<close>

definition addOverlap :: "duration \<Rightarrow> duration \<Rightarrow> duration \<Rightarrow> CaptionEntry \<Rightarrow> duration" where
  "addOverlap tStart tEnd coveredDuration caption =
     (let overlapStart = MaxDuration (StartTime caption) tStart;
          overlapEnd = MinDuration (EndTime caption) tEnd
      in if overlapStart <s overlapEnd
         then coveredDuration + (overlapEnd - overlapStart)
         else coveredDuration)"

fun coverLoop :: "duration \<Rightarrow> duration \<Rightarrow> duration \<Rightarrow> CaptionEntry list \<Rightarrow> duration" where
  "coverLoop tStart tEnd coveredDuration [] = coveredDuration"
| "coverLoop tStart tEnd coveredDuration (caption # captions) =
     coverLoop tStart tEnd (addOverlap tStart tEnd coveredDuration caption) captions"

text \<open>The value of \<^verbatim>\<open>coveredDuration\<close> when the loop ends (it starts at zero).\<close>

definition coveredDuration :: "CaptionEntry list \<Rightarrow> duration \<Rightarrow> duration \<Rightarrow> duration" where
  "coveredDuration captions tStart tEnd = coverLoop tStart tEnd 0 captions"

text \<open>
  \<^verbatim>\<open>ValidateCoverage\<close>. Its last two lines compute
  \<^verbatim>\<open>float64(coveredDuration) / float64(totalRange) >= requiredCoverage\<close> in IEEE double
  arithmetic. That comparison is not interpreted here: it is the parameter \<open>ratioAtLeast\<close>,
  applied to the covered duration, the window length and the required fraction.
\<close>

definition ValidateCoverage ::
  "(duration \<Rightarrow> duration \<Rightarrow> 'f \<Rightarrow> bool) \<Rightarrow> CaptionEntry list \<Rightarrow> duration \<Rightarrow> duration \<Rightarrow> 'f \<Rightarrow> bool" where
  "ValidateCoverage ratioAtLeast captions tStart tEnd requiredCoverage =
     (let totalRange = tEnd - tStart
      in if totalRange \<le>s 0 then False
         else ratioAtLeast (coveredDuration captions tStart tEnd) totalRange requiredCoverage)"

text \<open>
  The same comparison over the reals. Go computes it in \<^verbatim>\<open>float64\<close>; the two agree
  wherever both conversions and the quotient are exact, as they are for a covered
  duration of 0 nanoseconds and a window length of 1 nanosecond.
\<close>

definition exactRatioAtLeast :: "duration \<Rightarrow> duration \<Rightarrow> real \<Rightarrow> bool" where
  "exactRatioAtLeast covered totalRange requiredCoverage \<longleftrightarrow>
     real_of_int (sint covered) / real_of_int (sint totalRange) \<ge> requiredCoverage"

section \<open>Go library functions used by the parsers\<close>

subsection \<open>strconv.Atoi\<close>

definition isDigit :: "char \<Rightarrow> bool" where
  "isDigit c \<longleftrightarrow> 48 \<le> (of_char c :: int) \<and> (of_char c :: int) \<le> 57"

definition digitVal :: "char \<Rightarrow> int" where
  "digitVal c = of_char c - 48"

datatype num_error = ErrSyntax | ErrRange

text \<open>
  The digit loop of \<^verbatim>\<open>strconv.ParseUint\<close> in base 10 and 64 bits: a byte that is not a
  decimal digit is a syntax error, a value above \<open>2^64 - 1\<close> a range error, whichever
  comes first from the left.
\<close>

fun parseUintLoop :: "int \<Rightarrow> string \<Rightarrow> num_error + int" where
  "parseUintLoop n [] = Inr n"
| "parseUintLoop n (c # cs) =
     (if \<not> isDigit c then Inl ErrSyntax
      else if n * 10 + digitVal c > 2 ^ 64 - 1 then Inl ErrRange
      else parseUintLoop (n * 10 + digitVal c) cs)"

text \<open>
  \<^verbatim>\<open>strconv.Atoi\<close> where Go's \<^verbatim>\<open>int\<close> has 64 bits: one optional sign, then at least one
  digit; the result must lie in \<open>[-2^63, 2^63 - 1]\<close>.
\<close>

definition Atoi :: "string \<Rightarrow> num_error + 64 word" where
  "Atoi s =
     (case s of
        [] \<Rightarrow> Inl ErrSyntax
      | c # cs \<Rightarrow>
          let neg = (c = CHR ''-'');
              ds = (if c = CHR ''+'' \<or> c = CHR ''-'' then cs else s)
          in if ds = [] then Inl ErrSyntax
             else (case parseUintLoop 0 ds of
                     Inl e \<Rightarrow> Inl e
                   | Inr un \<Rightarrow>
                       if \<not> neg \<and> un \<ge> 2 ^ 63 then Inl ErrRange
                       else if neg \<and> un > 2 ^ 63 then Inl ErrRange
                       else Inr (if neg then - word_of_int un else word_of_int un)))"

subsection \<open>strings.Split, strings.Join, strings.HasPrefix\<close>

text \<open>\<^verbatim>\<open>strings.Split\<close> with a one-byte separator, as every call in the parsers has.\<close>

fun splitLoop :: "char \<Rightarrow> string \<Rightarrow> string \<Rightarrow> string list" where
  "splitLoop sep cur [] = [cur]"
| "splitLoop sep cur (c # cs) =
     (if c = sep then cur # splitLoop sep [] cs else splitLoop sep (cur @ [c]) cs)"

definition Split :: "string \<Rightarrow> char \<Rightarrow> string list" where
  "Split s sep = splitLoop sep [] s"

fun Join :: "string list \<Rightarrow> string \<Rightarrow> string" where
  "Join [] sep = []"
| "Join [x] sep = x"
| "Join (x # y # ys) sep = x @ sep @ Join (y # ys) sep"

definition HasPrefix :: "string \<Rightarrow> string \<Rightarrow> bool" where
  "HasPrefix s p \<longleftrightarrow> take (length p) s = p"

subsection \<open>strings.TrimSpace\<close>

text \<open>
  Go strings are byte sequences and \<^verbatim>\<open>strings.TrimSpace\<close> removes the leading and the
  trailing runes for which \<^verbatim>\<open>unicode.IsSpace\<close> holds, decoding UTF-8. These are the UTF-8
  encodings of those runes: the six ASCII ones, U+0085, U+00A0, U+1680, U+2000 to U+200A,
  U+2028, U+2029, U+202F, U+205F and U+3000. Bytes that do not decode to one of them
  (including invalid UTF-8) stop the trimming.
\<close>

definition spaceRunes :: "string list" where
  "spaceRunes =
     [ [CHR 0x09], [CHR 0x0A], [CHR 0x0B], [CHR 0x0C], [CHR 0x0D], [CHR 0x20],
      [CHR 0xC2, CHR 0x85], [CHR 0xC2, CHR 0xA0],
      [CHR 0xE1, CHR 0x9A, CHR 0x80],
      [CHR 0xE2, CHR 0x80, CHR 0x80], [CHR 0xE2, CHR 0x80, CHR 0x81],
      [CHR 0xE2, CHR 0x80, CHR 0x82], [CHR 0xE2, CHR 0x80, CHR 0x83],
      [CHR 0xE2, CHR 0x80, CHR 0x84], [CHR 0xE2, CHR 0x80, CHR 0x85],
      [CHR 0xE2, CHR 0x80, CHR 0x86], [CHR 0xE2, CHR 0x80, CHR 0x87],
      [CHR 0xE2, CHR 0x80, CHR 0x88], [CHR 0xE2, CHR 0x80, CHR 0x89],
      [CHR 0xE2, CHR 0x80, CHR 0x8A],
      [CHR 0xE2, CHR 0x80, CHR 0xA8], [CHR 0xE2, CHR 0x80, CHR 0xA9],
      [CHR 0xE2, CHR 0x80, CHR 0xAF],
      [CHR 0xE2, CHR 0x81, CHR 0x9F],
      [CHR 0xE3, CHR 0x80, CHR 0x80]]"

text \<open>The number of bytes of the rune of \<open>runes\<close> that \<open>s\<close> starts with, 0 if there is none.\<close>

definition runeWidth :: "string list \<Rightarrow> string \<Rightarrow> nat" where
  "runeWidth runes s =
     (case find (\<lambda>t. take (length t) s = t) runes of None \<Rightarrow> 0 | Some t \<Rightarrow> length t)"

fun trimLeftRunes :: "string list \<Rightarrow> string \<Rightarrow> string" where
  "trimLeftRunes runes [] = []"
| "trimLeftRunes runes (c # cs) =
     (if runeWidth runes (c # cs) = 0 then c # cs
      else trimLeftRunes runes (drop (runeWidth runes (c # cs) - 1) cs))"

definition TrimLeft :: "string \<Rightarrow> string" where
  "TrimLeft s = trimLeftRunes spaceRunes s"

text \<open>Trailing runes are found from the end: the same loop on the reversed bytes.\<close>

definition TrimRight :: "string \<Rightarrow> string" where
  "TrimRight s = rev (trimLeftRunes (map rev spaceRunes) (rev s))"

definition TrimSpace :: "string \<Rightarrow> string" where
  "TrimSpace s = TrimRight (TrimLeft s)"

subsection \<open>The timing regular expressions\<close>

text \<open>
  Both parsers compile
  \<^verbatim>\<open>(\d{2}:\d{2}:\d{2}<sep>\d{3})\s+-->\s+(\d{2}:\d{2}:\d{2}<sep>\d{3})\<close>,
  with \<^verbatim>\<open>,\<close> (SRT) or \<^verbatim>\<open>\.\<close> (WebVTT) for the separator. In Go's regexp
  syntax \<^verbatim>\<open>\d\<close> is an ASCII digit and \<^verbatim>\<open>\s\<close> is one of tab, newline, form feed,
  carriage return and space. A match from a given position is unique (each \<^verbatim>\<open>\s+\<close> is
  followed by a byte that is not white space), and \<^verbatim>\<open>FindStringSubmatch\<close> returns the
  match at the leftmost position where one exists; of its three strings the parsers use
  the two groups.
\<close>

datatype cls = Digit | Lit char

fun clsOk :: "cls \<Rightarrow> char \<Rightarrow> bool" where
  "clsOk Digit c = isDigit c"
| "clsOk (Lit l) c = (c = l)"

text \<open>Match a sequence of one-byte classes at the head of a string; the rest is returned.\<close>

fun matchSeq :: "cls list \<Rightarrow> string \<Rightarrow> string option" where
  "matchSeq [] s = Some s"
| "matchSeq (p # ps) [] = None"
| "matchSeq (p # ps) (c # cs) = (if clsOk p c then matchSeq ps cs else None)"

definition timestampPattern :: "char \<Rightarrow> cls list" where
  "timestampPattern sep =
     [Digit, Digit, Lit CHR '':'', Digit, Digit, Lit CHR '':'', Digit, Digit, Lit sep,
      Digit, Digit, Digit]"

definition isReSpace :: "char \<Rightarrow> bool" where
  "isReSpace c \<longleftrightarrow> c \<in> {CHR 0x09, CHR 0x0A, CHR 0x0C, CHR 0x0D, CHR 0x20}"

text \<open>\<^verbatim>\<open>\s+\<close>: at least one white-space byte, then all that follow.\<close>

definition reSpaces1 :: "string \<Rightarrow> string option" where
  "reSpaces1 s =
     (case s of [] \<Rightarrow> None
      | c # cs \<Rightarrow> if isReSpace c then Some (dropWhile isReSpace cs) else None)"

definition matchTimingAt :: "char \<Rightarrow> string \<Rightarrow> (string \<times> string) option" where
  "matchTimingAt sep s =
     (case matchSeq (timestampPattern sep) s of
        None \<Rightarrow> None
      | Some r1 \<Rightarrow>
          (case reSpaces1 r1 of
             None \<Rightarrow> None
           | Some r2 \<Rightarrow>
               if take 3 r2 \<noteq> ''-->'' then None
               else (case reSpaces1 (drop 3 r2) of
                       None \<Rightarrow> None
                     | Some r3 \<Rightarrow>
                         (case matchSeq (timestampPattern sep) r3 of
                            None \<Rightarrow> None
                          | Some r4 \<Rightarrow> Some (take 12 s, take 12 r3)))))"

fun FindStringSubmatch :: "char \<Rightarrow> string \<Rightarrow> (string \<times> string) option" where
  "FindStringSubmatch sep [] = matchTimingAt sep []"
| "FindStringSubmatch sep (c # cs) =
     (case matchTimingAt sep (c # cs) of
        Some m \<Rightarrow> Some m
      | None \<Rightarrow> FindStringSubmatch sep cs)"

definition srtTimeRegex :: "string \<Rightarrow> (string \<times> string) option" where
  "srtTimeRegex line = FindStringSubmatch CHR '','' line"

definition vttTimeRegex :: "string \<Rightarrow> (string \<times> string) option" where
  "vttTimeRegex line = FindStringSubmatch CHR ''.'' line"

subsection \<open>bufio.Scanner on a reader that delivers its bytes and then end of file\<close>

text \<open>
  \<^verbatim>\<open>bufio.NewScanner\<close> splits with \<^verbatim>\<open>bufio.ScanLines\<close>: a line ends at a newline
  byte, a last line need not have one, and one trailing carriage return is dropped from
  each line. The buffer grows to \<^verbatim>\<open>bufio.MaxScanTokenSize\<close>, 64 KiB: when a line has
  that many bytes or more before its newline, \<^verbatim>\<open>Scan\<close> returns false there and
  \<^verbatim>\<open>Err\<close> reports \<^verbatim>\<open>bufio.ErrTooLong\<close>. (For a last line without newline this is
  so when the reader reports end of file by a read of its own, as files and
  \<^verbatim>\<open>strings.Reader\<close> do.)
\<close>

definition MaxScanTokenSize :: int where
  "MaxScanTokenSize = 65536"

definition ErrTooLong :: string where
  "ErrTooLong = ''bufio.Scanner: token too long''"

definition dropCR :: "string \<Rightarrow> string" where
  "dropCR l = (if l \<noteq> [] \<and> last l = CHR 0x0D then butlast l else l)"

text \<open>The lines of the input with their carriage returns, without the newlines.\<close>

definition rawLines :: "string \<Rightarrow> string list" where
  "rawLines data =
     (let ls = Split data CHR 0x0A in if last ls = [] then butlast ls else ls)"

fun scanLoop :: "string list \<Rightarrow> string list \<times> string option" where
  "scanLoop [] = ([], None)"
| "scanLoop (l # ls) =
     (if int (length l) \<ge> MaxScanTokenSize then ([], Some ErrTooLong)
      else (dropCR l # fst (scanLoop ls), snd (scanLoop ls)))"

text \<open>What \<^verbatim>\<open>scanner.Scan\<close> yields on the input, and what \<^verbatim>\<open>scanner.Err\<close> reports.\<close>

definition scanLines :: "string \<Rightarrow> string list \<times> string option" where
  "scanLines data = scanLoop (rawLines data)"

section \<open>Timestamp codec (package parse)\<close>

datatype time_error =
    InvalidTimeFormat string
  | InvalidSecondsFormat string
  | NumError string num_error

text \<open>
  \<^verbatim>\<open>parseSRTTime\<close> and \<^verbatim>\<open>parseWebVTTTime\<close> have the same body but for the separator
  given to the second \<^verbatim>\<open>strings.Split\<close>. The body, in the order of the source; the
  arithmetic is Go's \<^verbatim>\<open>int\<close> and \<^verbatim>\<open>time.Duration\<close> arithmetic, which wraps around in
  64 bits, and \<^verbatim>\<open>time.Millisecond\<close> is 1000000 nanoseconds.
\<close>

definition parseTimeSep :: "char \<Rightarrow> string \<Rightarrow> time_error + duration" where
  "parseTimeSep sep timeStr =
     (let parts = Split timeStr CHR '':''
      in if length parts \<noteq> 3 then Inl (InvalidTimeFormat timeStr)
         else (case Atoi (parts ! 0) of
                 Inl err \<Rightarrow> Inl (NumError (parts ! 0) err)
               | Inr hours \<Rightarrow>
           (case Atoi (parts ! 1) of
              Inl err \<Rightarrow> Inl (NumError (parts ! 1) err)
            | Inr minutes \<Rightarrow>
                let secParts = Split (parts ! 2) sep
                in if length secParts \<noteq> 2 then Inl (InvalidSecondsFormat (parts ! 2))
                   else (case Atoi (secParts ! 0) of
                           Inl err \<Rightarrow> Inl (NumError (secParts ! 0) err)
                         | Inr seconds \<Rightarrow>
                     (case Atoi (secParts ! 1) of
                        Inl err \<Rightarrow> Inl (NumError (secParts ! 1) err)
                      | Inr milliseconds \<Rightarrow>
                          let totalMilliseconds =
                                hours * 3600000 + minutes * 60000 + seconds * 1000 + milliseconds
                          in Inr (totalMilliseconds * 1000000))))))"

definition parseSRTTime :: "string \<Rightarrow> time_error + duration" where
  "parseSRTTime timeStr = parseTimeSep CHR '','' timeStr"

definition parseWebVTTTime :: "string \<Rightarrow> time_error + duration" where
  "parseWebVTTTime timeStr = parseTimeSep CHR ''.'' timeStr"

section \<open>Block scanners (package parse)\<close>

text \<open>
  The reader is given as what \<^verbatim>\<open>bufio.Scanner\<close> makes of it: the lines that
  \<^verbatim>\<open>scanner.Scan\<close> yields in order, and the error that \<^verbatim>\<open>scanner.Err\<close> reports
  once the loop has ended (\<open>None\<close> for \<^verbatim>\<open>nil\<close>). A parser returns Go's pair of the
  caption slice and the error.
\<close>

datatype parse_error =
    StartTimeError time_error
  | EndTimeError time_error
  | ScannerError string

text \<open>The local variables that both parsers have.\<close>

record block_state =
  captions :: "CaptionEntry list"
  currentEntry :: CaptionEntry
  textLines :: "string list"

record srt_state = block_state +
  expectingSequence :: bool

record vtt_state = block_state +
  inHeader :: bool

text \<open>
  \<^verbatim>\<open>if len(textLines) > 0 { currentEntry.Text = strings.Join(textLines, " ");
  captions = append(captions, currentEntry); textLines = nil }\<close>, which both parsers run
  at a blank line and, but for the reset, after the loop.
\<close>

definition flushBlock :: "'a block_state_scheme \<Rightarrow> 'a block_state_scheme" where
  "flushBlock st =
     (if length (textLines st) > 0
      then let cur = (currentEntry st)\<lparr>Text := Join (textLines st) '' ''\<rparr>
           in st\<lparr>currentEntry := cur, captions := captions st @ [cur], textLines := []\<rparr>
      else st)"

text \<open>
  The \<^verbatim>\<open>if matches := timeRegex.FindStringSubmatch(line); len(matches) == 3 {...} else {...}\<close>
  statement of both parsers, for the parser's regular expression and codec.
\<close>

definition timingOrText ::
  "(string \<Rightarrow> (string \<times> string) option) \<Rightarrow> (string \<Rightarrow> time_error + duration) \<Rightarrow>
   'a block_state_scheme \<Rightarrow> string \<Rightarrow> parse_error + 'a block_state_scheme" where
  "timingOrText timeRegex parseTime st line =
     (case timeRegex line of
        Some (m1, m2) \<Rightarrow>
          (case parseTime m1 of
             Inl err \<Rightarrow> Inl (StartTimeError err)
           | Inr t1 \<Rightarrow>
               (case parseTime m2 of
                  Inl err \<Rightarrow> Inl (EndTimeError err)
                | Inr t2 \<Rightarrow>
                    Inr (st\<lparr>currentEntry := (currentEntry st)\<lparr>StartTime := t1, EndTime := t2\<rparr>\<rparr>)))
      | None \<Rightarrow> Inr (st\<lparr>textLines := textLines st @ [line]\<rparr>))"

text \<open>One iteration of the loop of \<^verbatim>\<open>ParseSRT\<close> on the next scanned line.\<close>

definition srtStep :: "srt_state \<Rightarrow> string \<Rightarrow> parse_error + srt_state" where
  "srtStep st raw =
     (let line = TrimSpace raw
      in if line = [] then Inr ((flushBlock st)\<lparr>expectingSequence := True\<rparr>)
         else if expectingSequence st then Inr (st\<lparr>expectingSequence := False\<rparr>)
         else timingOrText srtTimeRegex parseSRTTime st line)"

fun srtLoop :: "srt_state \<Rightarrow> string list \<Rightarrow> parse_error + srt_state" where
  "srtLoop st [] = Inr st"
| "srtLoop st (raw # rest) =
     (case srtStep st raw of Inl err \<Rightarrow> Inl err | Inr st' \<Rightarrow> srtLoop st' rest)"

definition zeroEntry :: CaptionEntry where
  "zeroEntry = \<lparr>StartTime = 0, EndTime = 0, Text = []\<rparr>"

definition srtInit :: srt_state where
  "srtInit = \<lparr>captions = [], currentEntry = zeroEntry, textLines = [], expectingSequence = True\<rparr>"

definition ParseSRT :: "string list \<Rightarrow> string option \<Rightarrow> CaptionEntry list \<times> parse_error option" where
  "ParseSRT scanned scanErr =
     (case srtLoop srtInit scanned of
        Inl err \<Rightarrow> ([], Some err)
      | Inr st \<Rightarrow> (captions (flushBlock st), map_option ScannerError scanErr))"

text \<open>One iteration of the loop of \<^verbatim>\<open>ParseWebVTT\<close>.\<close>

definition vttStep :: "vtt_state \<Rightarrow> string \<Rightarrow> parse_error + vtt_state" where
  "vttStep st raw =
     (let line = TrimSpace raw
      in if inHeader st \<and> (line = [] \<or> HasPrefix line ''WEBVTT'' \<or> HasPrefix line ''NOTE'')
         then Inr st
         else let st1 = st\<lparr>inHeader := False\<rparr>
              in if line = [] then Inr (flushBlock st1)
                 else timingOrText vttTimeRegex parseWebVTTTime st1 line)"

fun vttLoop :: "vtt_state \<Rightarrow> string list \<Rightarrow> parse_error + vtt_state" where
  "vttLoop st [] = Inr st"
| "vttLoop st (raw # rest) =
     (case vttStep st raw of Inl err \<Rightarrow> Inl err | Inr st' \<Rightarrow> vttLoop st' rest)"

definition vttInit :: vtt_state where
  "vttInit = \<lparr>captions = [], currentEntry = zeroEntry, textLines = [], inHeader = True\<rparr>"

definition ParseWebVTT :: "string list \<Rightarrow> string option \<Rightarrow> CaptionEntry list \<times> parse_error option" where
  "ParseWebVTT scanned scanErr =
     (case vttLoop vttInit scanned of
        Inl err \<Rightarrow> ([], Some err)
      | Inr st \<Rightarrow> (captions (flushBlock st), map_option ScannerError scanErr))"

text \<open>The parsers on the bytes of such a reader.\<close>

definition ParseSRTOn :: "string \<Rightarrow> CaptionEntry list \<times> parse_error option" where
  "ParseSRTOn data = ParseSRT (fst (scanLines data)) (snd (scanLines data))"

definition ParseWebVTTOn :: "string \<Rightarrow> CaptionEntry list \<times> parse_error option" where
  "ParseWebVTTOn data = ParseWebVTT (fst (scanLines data)) (snd (scanLines data))"

section \<open>Text aggregator (package parse)\<close>

fun extractLoop :: "string list \<Rightarrow> CaptionEntry list \<Rightarrow> string list" where
  "extractLoop textParts [] = textParts"
| "extractLoop textParts (caption # rest) =
     extractLoop (if TrimSpace (Text caption) \<noteq> [] then textParts @ [Text caption] else textParts)
       rest"

definition ExtractAllText :: "CaptionEntry list \<Rightarrow> string" where
  "ExtractAllText caps = Join (extractLoop [] caps) '' ''"

section \<open>Notions of the specification\<close>

text \<open>
  The overlap of one caption with the window as the specification writes it, over the
  unbounded integers: \<open>max(0, min(entry.end, window.end) - max(entry.start, window.start))\<close>.
\<close>

definition specOverlap :: "duration \<Rightarrow> duration \<Rightarrow> CaptionEntry \<Rightarrow> int" where
  "specOverlap tStart tEnd caption =
     max 0 (min (sint (EndTime caption)) (sint tEnd) - max (sint (StartTime caption)) (sint tStart))"

text \<open>Durations and caption entries for the examples: \<open>secs n\<close> is \<open>n\<close> seconds.\<close>

definition secs :: "int \<Rightarrow> duration" where
  "secs n = word_of_int (n * 1000000000)"

definition entry :: "duration \<Rightarrow> duration \<Rightarrow> string \<Rightarrow> CaptionEntry" where
  "entry s e t = \<lparr>StartTime = s, EndTime = e, Text = t\<rparr>"

text \<open>The number that a string of decimal digits denotes.\<close>

definition decimal :: "string \<Rightarrow> int" where
  "decimal ds = foldl (\<lambda>n c. 10 * n + digitVal c) 0 ds"

text \<open>\<open>HH*3600000 + MM*60000 + SS*1000 + mmm\<close> for the four digit groups of a timestamp.\<close>

definition timestampMillis :: "string \<Rightarrow> string \<Rightarrow> string \<Rightarrow> string \<Rightarrow> int" where
  "timestampMillis hh mm ss mmm =
     decimal hh * 3600000 + decimal mm * 60000 + decimal ss * 1000 + decimal mmm"

text \<open>A component is numeric when \<^verbatim>\<open>strconv.Atoi\<close> converts it.\<close>

definition numeric :: "string \<Rightarrow> bool" where
  "numeric s \<longleftrightarrow> \<not> isl (Atoi s)"

text \<open>
  A line as the scanners keep it: not empty and not starting with a white-space rune.
\<close>

definition trimmedLine :: "string \<Rightarrow> bool" where
  "trimmedLine l \<longleftrightarrow> l \<noteq> [] \<and> runeWidth spaceRunes l = 0"

text \<open>
  The grammar of a timestamp: the whole string is two digits, a colon, two digits, a
  colon, two digits, the separator and three digits.
\<close>

definition isTimestamp :: "char \<Rightarrow> string \<Rightarrow> bool" where
  "isTimestamp sep s \<longleftrightarrow> matchSeq (timestampPattern sep) s = Some []"

text \<open>
  The invariant of the loop of either scanner: the text of every caption appended so far and
  every accumulated text line is a trimmed, non-empty line.
\<close>

definition stateOk :: "'a block_state_scheme \<Rightarrow> bool" where
  "stateOk st \<longleftrightarrow>
     (\<forall>c\<in>set (captions st). trimmedLine (Text c)) \<and> (\<forall>l\<in>set (textLines st). trimmedLine l)"

section \<open>Properties of the coverage evaluator\<close>

lemma sint_MaxDuration: "sint (MaxDuration a b) = max (sint a) (sint b)"
  by (simp add: MaxDuration_def word_sless_alt max_def)

lemma sint_MinDuration: "sint (MinDuration a b) = min (sint a) (sint b)"
  by (simp add: MinDuration_def word_sless_alt min_def)

lemma addOverlap_spec:
  "addOverlap tStart tEnd acc c = acc + word_of_int (specOverlap tStart tEnd c)"
proof -
  define oS where "oS = MaxDuration (StartTime c) tStart"
  define oE where "oE = MinDuration (EndTime c) tEnd"
  have diff: "specOverlap tStart tEnd c = max 0 (sint oE - sint oS)"
    by (simp add: specOverlap_def oS_def oE_def sint_MaxDuration sint_MinDuration)
  have step: "addOverlap tStart tEnd acc c = (if oS <s oE then acc + (oE - oS) else acc)"
    by (simp add: addOverlap_def oS_def oE_def)
  show ?thesis
  proof (cases "oS <s oE")
    case True
    then have "specOverlap tStart tEnd c = sint oE - sint oS"
      by (simp add: diff word_sless_alt)
    then have "word_of_int (specOverlap tStart tEnd c) = oE - oS"
      by simp
    with True step show ?thesis by simp
  next
    case False
    then have "specOverlap tStart tEnd c = 0"
      by (simp add: diff word_sless_alt)
    with False step show ?thesis by simp
  qed
qed

lemma coverLoop_spec:
  "coverLoop tStart tEnd acc cs =
     acc + word_of_int (\<Sum>c\<leftarrow>cs. specOverlap tStart tEnd c)"
  by (induction cs arbitrary: acc) (simp_all add: addOverlap_spec add.assoc)

lemma sint_word_of_int_small:
  assumes "0 \<le> x" and "x < 2 ^ 63"
  shows "sint (word_of_int x :: 64 word) = x"
proof -
  have "signed_take_bit (63::nat) x = x"
    using assms by (intro signed_take_bit_int_eq_self) simp_all
  then show ?thesis by (simp add: sint_sbintrunc')
qed

lemma specOverlap_nonneg: "0 \<le> specOverlap tStart tEnd c"
  by (simp add: specOverlap_def)

lemma sum_specOverlap_nonneg: "0 \<le> (\<Sum>c\<leftarrow>cs. specOverlap tStart tEnd c)"
  by (induction cs) (simp_all add: specOverlap_nonneg)

lemma coveredDuration_word:
  "coveredDuration cs tStart tEnd = word_of_int (\<Sum>c\<leftarrow>cs. specOverlap tStart tEnd c)"
  by (simp add: coveredDuration_def coverLoop_spec)

lemma coveredDuration_sint:
  assumes "(\<Sum>c\<leftarrow>cs. specOverlap tStart tEnd c) < 2 ^ 63"
  shows "sint (coveredDuration cs tStart tEnd) = (\<Sum>c\<leftarrow>cs. specOverlap tStart tEnd c)"
  using assms sum_specOverlap_nonneg [of tStart tEnd cs]
  by (simp add: coveredDuration_word sint_word_of_int_small)

lemma inverted_entry_no_overlap:
  assumes "EndTime c \<le>s StartTime c"
  shows "addOverlap tStart tEnd acc c = acc"
proof -
  have "sint (MinDuration (EndTime c) tEnd) \<le> sint (MaxDuration (StartTime c) tStart)"
    using assms by (simp add: sint_MaxDuration sint_MinDuration word_sle_eq)
  then have "\<not> MaxDuration (StartTime c) tStart <s MinDuration (EndTime c) tEnd"
    by (simp add: word_sless_alt)
  then show ?thesis by (simp add: addOverlap_def)
qed

lemma coverLoop_append:
  "coverLoop tStart tEnd acc (xs @ ys) = coverLoop tStart tEnd (coverLoop tStart tEnd acc xs) ys"
  by (induction xs arbitrary: acc) simp_all

text \<open>
  C7. A caption entry with \<open>start \<ge> end\<close> adds exactly zero to the covered-duration
  accumulator, for every window: the accumulator is unchanged by it, so it can be removed
  from any position of the caption sequence without changing the covered duration or the
  verdict, whatever the required fraction.
\<close>

theorem inverted_entry_contributes_zero:
  assumes "EndTime c \<le>s StartTime c"
  shows "addOverlap tStart tEnd acc c = acc
     \<and> coveredDuration (xs @ c # ys) tStart tEnd = coveredDuration (xs @ ys) tStart tEnd
     \<and> ValidateCoverage ratioAtLeast (xs @ c # ys) tStart tEnd required =
         ValidateCoverage ratioAtLeast (xs @ ys) tStart tEnd required"
proof -
  have one: "addOverlap tStart tEnd a c = a" for a
    using assms by (rule inverted_entry_no_overlap)
  have two: "coveredDuration (xs @ c # ys) tStart tEnd = coveredDuration (xs @ ys) tStart tEnd"
    by (simp add: coveredDuration_def coverLoop_append one)
  show ?thesis
    by (simp add: one two ValidateCoverage_def)
qed

theorem inverted_entry_contributes_zero_witness:
  "EndTime (entry (secs 5) (secs 2) ''x'') \<le>s StartTime (entry (secs 5) (secs 2) ''x'')
   \<and> addOverlap (secs 0) (secs 10) (secs 3) (entry (secs 5) (secs 2) ''x'') = secs 3
   \<and> coveredDuration ([entry (secs 0) (secs 3) ''a''] @ entry (secs 5) (secs 2) ''x'' # [])
         (secs 0) (secs 10) = secs 3"
proof -
  have h: "EndTime (entry (secs 5) (secs 2) ''x'') \<le>s StartTime (entry (secs 5) (secs 2) ''x'')"
    by (simp add: entry_def secs_def word_sle_eq)
  have v: "coveredDuration ([entry (secs 0) (secs 3) ''a''] @ []) (secs 0) (secs 10) = secs 3"
    by (simp add: coveredDuration_def addOverlap_def MaxDuration_def MinDuration_def
        entry_def secs_def word_sless_alt)
  note t = inverted_entry_contributes_zero [OF h, of "secs 0" "secs 10" "secs 3"
        "[entry (secs 0) (secs 3) ''a'']" "[]" "\<lambda>covered total (required :: real). True" 0]
  from t have "addOverlap (secs 0) (secs 10) (secs 3) (entry (secs 5) (secs 2) ''x'') = secs 3"
    by (rule conjunct1)
  moreover from t have
    "coveredDuration ([entry (secs 0) (secs 3) ''a''] @ entry (secs 5) (secs 2) ''x'' # [])
       (secs 0) (secs 10) =
     coveredDuration ([entry (secs 0) (secs 3) ''a''] @ []) (secs 0) (secs 10)"
    by (rule conjunct2 [THEN conjunct1])
  ultimately show ?thesis
    using h v by simp
qed

text \<open>
  C8 (as amended). If the window is degenerate or inverted, \<open>window.end \<le> window.start\<close>,
  and \<open>window.start - window.end\<close> is at most \<open>2^63\<close> nanoseconds, so that the
  \<^verbatim>\<open>time.Duration\<close> difference \<open>window.end - window.start\<close> that the code computes does
  not wrap around, the coverage evaluator returns false, for every caption sequence and
  every required fraction.
\<close>

theorem nonpositive_window_false:
  assumes "sint tEnd \<le> sint tStart" and "sint tStart - sint tEnd \<le> 2 ^ 63"
  shows "ValidateCoverage ratioAtLeast cs tStart tEnd required = False"
proof -
  have "sint (tEnd - tStart) = signed_take_bit (63::nat) (sint tEnd - sint tStart)"
    by (simp add: sint_word_ariths)
  also have "\<dots> = sint tEnd - sint tStart"
    using assms by (intro signed_take_bit_int_eq_self) simp_all
  finally have "tEnd - tStart \<le>s 0"
    using assms by (simp add: word_sle_eq)
  then show ?thesis by (simp add: ValidateCoverage_def)
qed

theorem nonpositive_window_false_witness:
  "sint (secs 0) \<le> sint (secs 2) \<and> sint (secs 2) - sint (secs 0) \<le> 2 ^ 63
   \<and> ValidateCoverage exactRatioAtLeast [entry (secs 0) (secs 1) ''a''] (secs 2) (secs 0) 0 = False
   \<and> sint (secs 5) \<le> sint (secs 5) \<and> sint (secs 5) - sint (secs 5) \<le> 2 ^ 63
   \<and> ValidateCoverage exactRatioAtLeast [entry (secs 0) (secs 9) ''a''] (secs 5) (secs 5) 0 = False"
proof -
  have h1: "sint (secs 0) \<le> sint (secs 2)" and h2: "sint (secs 2) - sint (secs 0) \<le> 2 ^ 63"
    by (simp_all add: secs_def)
  have h3: "sint (secs 5) \<le> sint (secs 5)" and h4: "sint (secs 5) - sint (secs 5) \<le> 2 ^ 63"
    by simp_all
  note a = nonpositive_window_false [OF h1 h2, of exactRatioAtLeast
      "[entry (secs 0) (secs 1) ''a'']" 0]
  note b = nonpositive_window_false [OF h3 h4, of exactRatioAtLeast
      "[entry (secs 0) (secs 9) ''a'']" 0]
  from a b h1 h2 h3 h4 show ?thesis by (intro conjI)
qed

text \<open>
  Without the bound an inverted window can be accepted: with \<open>start\<close> the largest and
  \<open>end\<close> the smallest duration, the difference wraps around to 1 nanosecond, the guard
  is passed, nothing is covered, and \<open>0 / 1 \<ge> 0\<close> makes the evaluator return true for the
  required fraction 0.
\<close>

theorem inverted_window_accepted_counterexample:
  "sint (- 9223372036854775808 :: duration) \<le> sint (9223372036854775807 :: duration)
   \<and> (- 9223372036854775808 :: duration) - 9223372036854775807 = 1
   \<and> ValidateCoverage exactRatioAtLeast [] 9223372036854775807 (- 9223372036854775808) 0 = True"
  by (simp add: ValidateCoverage_def exactRatioAtLeast_def coveredDuration_def word_sle_eq)

lemma same_instant_window_false:
  "ValidateCoverage ratioAtLeast cs t t required = False"
  by (simp add: ValidateCoverage_def)

text \<open>
  C1 (as amended). For every sequence of caption entries and every window, the covered
  duration that \<^verbatim>\<open>ValidateCoverage\<close> accumulates is the sum over all entries of
  \<open>max(0, min(entry.end, window.end) - max(entry.start, window.start))\<close>, taken modulo
  \<open>2^64\<close> into the signed 64-bit range of \<^verbatim>\<open>time.Duration\<close>; it is that sum itself
  whenever the sum is below \<open>2^63\<close> nanoseconds. Overlapping entries are not merged:
  \<open>[0s,2s)\<close> and \<open>[1s,3s)\<close> against the window \<open>[0s,3s)\<close> give 4s.
\<close>

theorem covered_is_naive_sum:
  "coveredDuration cs tStart tEnd = word_of_int (sum_list (map (specOverlap tStart tEnd) cs))
   \<and> (sum_list (map (specOverlap tStart tEnd) cs) < 2 ^ 63 \<longrightarrow>
        sint (coveredDuration cs tStart tEnd) = sum_list (map (specOverlap tStart tEnd) cs))"
proof (intro conjI impI)
  show "coveredDuration cs tStart tEnd = word_of_int (sum_list (map (specOverlap tStart tEnd) cs))"
    by (rule coveredDuration_word)
next
  assume "sum_list (map (specOverlap tStart tEnd) cs) < 2 ^ 63"
  then show "sint (coveredDuration cs tStart tEnd) = sum_list (map (specOverlap tStart tEnd) cs)"
    by (rule coveredDuration_sint)
qed

theorem covered_is_naive_sum_witness:
  "sum_list (map (specOverlap (secs 0) (secs 3))
       [entry (secs 0) (secs 2) ''a'', entry (secs 1) (secs 3) ''b'']) < 2 ^ 63
   \<and> sint (coveredDuration [entry (secs 0) (secs 2) ''a'', entry (secs 1) (secs 3) ''b'']
         (secs 0) (secs 3)) = 4000000000"
proof -
  let ?cs = "[entry (secs 0) (secs 2) ''a'', entry (secs 1) (secs 3) ''b'']"
  have ov: "map (specOverlap (secs 0) (secs 3)) ?cs = [2000000000, 2000000000]"
    by (simp add: specOverlap_def entry_def secs_def)
  have h: "sum_list (map (specOverlap (secs 0) (secs 3)) ?cs) < 2 ^ 63"
    unfolding ov by simp
  from covered_is_naive_sum [of ?cs "secs 0" "secs 3"] h
  have "sint (coveredDuration ?cs (secs 0) (secs 3))
      = sum_list (map (specOverlap (secs 0) (secs 3)) ?cs)"
    by blast
  then have "sint (coveredDuration ?cs (secs 0) (secs 3)) = 4000000000"
    unfolding ov by simp
  with h show ?thesis by blast
qed

text \<open>
  The claim without the bound fails: two entries \<open>[0, 2^62)\<close> against the window
  \<open>[0, 2^62)\<close> (nanoseconds) have overlaps summing to \<open>2^63\<close>, and the accumulator
  wraps around to \<open>-2^63\<close>.
\<close>

theorem covered_sum_overflow_counterexample:
  "0 <s (2 ^ 62 :: duration) - 0
   \<and> sint (coveredDuration [entry 0 (2 ^ 62) ''a'', entry 0 (2 ^ 62) ''b''] 0 (2 ^ 62))
      \<noteq> sum_list (map (specOverlap 0 (2 ^ 62)) [entry 0 (2 ^ 62) ''a'', entry 0 (2 ^ 62) ''b''])"
proof -
  have "sint (coveredDuration [entry 0 (2 ^ 62) ''a'', entry 0 (2 ^ 62) ''b''] 0 (2 ^ 62))
          = - (2 ^ 63)"
    by (simp add: coveredDuration_def addOverlap_def MaxDuration_def MinDuration_def entry_def
        word_sless_alt)
  moreover have "sum_list (map (specOverlap 0 (2 ^ 62))
        [entry 0 (2 ^ 62) ''a'', entry 0 (2 ^ 62) ''b'']) = 2 ^ 63"
    by (simp add: specOverlap_def entry_def)
  moreover have "0 <s (2 ^ 62 :: duration) - 0"
    by (simp add: word_sless_alt)
  ultimately show ?thesis by simp
qed

text \<open>
  C3 (as amended). Appending a caption entry whose interval has a non-empty intersection
  with the window strictly increases the computed covered duration, or leaves it
  unchanged if the window is already fully covered, provided that the sum of the
  overlaps, the new one included, stays below \<open>2^63\<close> nanoseconds. Under that bound
  the first case always holds: the increase is strict, since the sum is never capped at
  the window length.
\<close>

theorem append_overlapping_increases:
  assumes "max (sint (StartTime c)) (sint tStart) < min (sint (EndTime c)) (sint tEnd)"
    and "sum_list (map (specOverlap tStart tEnd) (cs @ [c])) < 2 ^ 63"
  shows "coveredDuration cs tStart tEnd <s coveredDuration (cs @ [c]) tStart tEnd"
proof -
  have less: "sum_list (map (specOverlap tStart tEnd) cs) < 2 ^ 63"
    using assms(2) specOverlap_nonneg [of tStart tEnd c] by simp
  have "sint (coveredDuration cs tStart tEnd) = sum_list (map (specOverlap tStart tEnd) cs)"
    using less by (rule coveredDuration_sint)
  moreover have "sint (coveredDuration (cs @ [c]) tStart tEnd)
      = sum_list (map (specOverlap tStart tEnd) (cs @ [c]))"
    using assms(2) by (rule coveredDuration_sint)
  moreover have "0 < specOverlap tStart tEnd c"
    using assms(1) by (simp add: specOverlap_def)
  ultimately show ?thesis
    by (simp add: word_sless_alt)
qed

theorem append_overlapping_increases_witness:
  "max (sint (StartTime (entry (secs 1) (secs 3) ''b''))) (sint (secs 0))
     < min (sint (EndTime (entry (secs 1) (secs 3) ''b''))) (sint (secs 3))
   \<and> sum_list (map (specOverlap (secs 0) (secs 3))
         ([entry (secs 0) (secs 3) ''a''] @ [entry (secs 1) (secs 3) ''b''])) < 2 ^ 63
   \<and> coveredDuration [entry (secs 0) (secs 3) ''a''] (secs 0) (secs 3)
        <s coveredDuration ([entry (secs 0) (secs 3) ''a''] @ [entry (secs 1) (secs 3) ''b''])
             (secs 0) (secs 3)"
proof -
  have h1: "max (sint (StartTime (entry (secs 1) (secs 3) ''b''))) (sint (secs 0))
     < min (sint (EndTime (entry (secs 1) (secs 3) ''b''))) (sint (secs 3))"
    by (simp add: entry_def secs_def)
  have h2: "sum_list (map (specOverlap (secs 0) (secs 3))
         ([entry (secs 0) (secs 3) ''a''] @ [entry (secs 1) (secs 3) ''b''])) < 2 ^ 63"
    by (simp add: specOverlap_def entry_def secs_def)
  show ?thesis
    using h1 h2 append_overlapping_increases [OF h1 h2] by simp
qed

text \<open>
  Without the bound the accumulator wraps around and the covered duration decreases:
  it is neither increased nor left unchanged.
\<close>

theorem append_overflow_counterexample:
  "max (sint (StartTime (entry 0 (2 ^ 62) ''b''))) (sint (0 :: duration))
     < min (sint (EndTime (entry 0 (2 ^ 62) ''b''))) (sint (2 ^ 62 :: duration))
   \<and> coveredDuration ([entry 0 (2 ^ 62) ''a''] @ [entry 0 (2 ^ 62) ''b'']) 0 (2 ^ 62)
        <s coveredDuration [entry 0 (2 ^ 62) ''a''] 0 (2 ^ 62)"
  by (simp add: specOverlap_def coveredDuration_def addOverlap_def MaxDuration_def
      MinDuration_def entry_def word_sless_alt)

section \<open>Properties of the timestamp codec\<close>

lemma isDigit_not_sign: "isDigit c \<Longrightarrow> c \<noteq> CHR ''+'' \<and> c \<noteq> CHR ''-''"
  by (auto simp: isDigit_def)

lemma isDigit_not_sep: "isDigit c \<Longrightarrow> c \<noteq> CHR '':'' \<and> c \<noteq> CHR '','' \<and> c \<noteq> CHR ''.''"
  by (auto simp: isDigit_def)

lemma digitVal_range: "isDigit c \<Longrightarrow> 0 \<le> digitVal c \<and> digitVal c \<le> 9"
  by (auto simp: isDigit_def digitVal_def)

lemma Atoi_two_digits:
  assumes "isDigit a" "isDigit b"
  shows "Atoi [a, b] = Inr (word_of_int (decimal [a, b]))"
  using assms digitVal_range [of a] digitVal_range [of b] isDigit_not_sign [of a]
  by (simp add: Atoi_def decimal_def)

lemma Atoi_three_digits:
  assumes "isDigit a" "isDigit b" "isDigit c"
  shows "Atoi [a, b, c] = Inr (word_of_int (decimal [a, b, c]))"
  using assms digitVal_range [of a] digitVal_range [of b] digitVal_range [of c]
    isDigit_not_sign [of a]
  by (simp add: Atoi_def decimal_def)

lemma decimal_two_range:
  assumes "isDigit a" "isDigit b"
  shows "0 \<le> decimal [a, b] \<and> decimal [a, b] \<le> 99"
  using digitVal_range [OF assms(1)] digitVal_range [OF assms(2)]
  by (simp add: decimal_def)

lemma decimal_three_range:
  assumes "isDigit a" "isDigit b" "isDigit c"
  shows "0 \<le> decimal [a, b, c] \<and> decimal [a, b, c] \<le> 999"
  using digitVal_range [OF assms(1)] digitVal_range [OF assms(2)] digitVal_range [OF assms(3)]
  by (simp add: decimal_def)

lemma Split_timestamp:
  assumes "isDigit h1" "isDigit h2" "isDigit m1" "isDigit m2" "isDigit s1" "isDigit s2"
    "isDigit f1" "isDigit f2" "isDigit f3" "sep \<noteq> CHR '':''"
  shows "Split [h1, h2, CHR '':'', m1, m2, CHR '':'', s1, s2, sep, f1, f2, f3] CHR '':''
    = [ [h1, h2], [m1, m2], [s1, s2, sep, f1, f2, f3]]"
  using assms by (simp add: Split_def isDigit_not_sep)

lemma Split_seconds:
  assumes "isDigit s1" "isDigit s2" "isDigit f1" "isDigit f2" "isDigit f3"
    "sep = CHR '','' \<or> sep = CHR ''.''"
  shows "Split [s1, s2, sep, f1, f2, f3] sep = [ [s1, s2], [f1, f2, f3]]"
  using assms isDigit_not_sep [of s1] isDigit_not_sep [of s2] isDigit_not_sep [of f1]
    isDigit_not_sep [of f2] isDigit_not_sep [of f3]
  by (auto simp add: Split_def)

lemma parseTimeSep_timestamp:
  assumes d: "isDigit h1" "isDigit h2" "isDigit m1" "isDigit m2" "isDigit s1" "isDigit s2"
    "isDigit f1" "isDigit f2" "isDigit f3"
    and sep: "sep = CHR '','' \<or> sep = CHR ''.''"
  shows "parseTimeSep sep [h1, h2, CHR '':'', m1, m2, CHR '':'', s1, s2, sep, f1, f2, f3]
    = Inr (word_of_int (timestampMillis [h1, h2] [m1, m2] [s1, s2] [f1, f2, f3] * 1000000))"
proof -
  have sep': "sep \<noteq> CHR '':''" using sep by auto
  show ?thesis
    by (simp add: parseTimeSep_def Split_timestamp [OF d sep'] Split_seconds [OF d(5-9) sep]
        Atoi_two_digits d Atoi_three_digits timestampMillis_def)
qed

lemma timestampMillis_range:
  assumes d: "isDigit h1" "isDigit h2" "isDigit m1" "isDigit m2" "isDigit s1" "isDigit s2"
    "isDigit f1" "isDigit f2" "isDigit f3"
  shows "0 \<le> timestampMillis [h1, h2] [m1, m2] [s1, s2] [f1, f2, f3]
    \<and> timestampMillis [h1, h2] [m1, m2] [s1, s2] [f1, f2, f3] \<le> 362439999"
  using decimal_two_range [OF d(1,2)] decimal_two_range [OF d(3,4)]
    decimal_two_range [OF d(5,6)] decimal_three_range [OF d(7,8,9)]
  unfolding timestampMillis_def by linarith


lemma parseTimeSep_timestamp_sint:
  assumes d: "isDigit h1" "isDigit h2" "isDigit m1" "isDigit m2" "isDigit s1" "isDigit s2"
    "isDigit f1" "isDigit f2" "isDigit f3"
    and sep: "sep = CHR '','' \<or> sep = CHR ''.''"
  shows "\<exists>dur. parseTimeSep sep [h1, h2, CHR '':'', m1, m2, CHR '':'', s1, s2, sep, f1, f2, f3]
      = Inr dur
    \<and> sint dur = timestampMillis [h1, h2] [m1, m2] [s1, s2] [f1, f2, f3] * 1000000"
proof -
  let ?ms = "timestampMillis [h1, h2] [m1, m2] [s1, s2] [f1, f2, f3]"
  have "0 \<le> ?ms * 1000000" and "?ms * 1000000 < 2 ^ 63"
    using timestampMillis_range [OF d] by simp_all
  then have "sint (word_of_int (?ms * 1000000) :: duration) = ?ms * 1000000"
    by (rule sint_word_of_int_small)
  with parseTimeSep_timestamp [OF d sep] show ?thesis by blast
qed

text \<open>
  C2. For every timestamp string \<open>HH:MM:SS,mmm\<close> (SRT) or \<open>HH:MM:SS.mmm\<close> (WebVTT) whose
  \<open>HH\<close>, \<open>MM\<close>, \<open>SS\<close> are two ASCII digits each and whose \<open>mmm\<close> is three ASCII digits,
  \<^verbatim>\<open>parseSRTTime\<close> (resp. \<^verbatim>\<open>parseWebVTTTime\<close>) succeeds, and the duration it returns
  is \<open>HH*3600000 + MM*60000 + SS*1000 + mmm\<close> milliseconds (a millisecond being 1000000
  of the nanoseconds a duration counts); nothing wraps around.
\<close>

theorem timestamp_value:
  assumes "isDigit h1" "isDigit h2" "isDigit m1" "isDigit m2" "isDigit s1" "isDigit s2"
    "isDigit f1" "isDigit f2" "isDigit f3"
  shows "(\<exists>dur. parseSRTTime [h1, h2, CHR '':'', m1, m2, CHR '':'', s1, s2, CHR '','', f1, f2, f3]
            = Inr dur
          \<and> sint dur = timestampMillis [h1, h2] [m1, m2] [s1, s2] [f1, f2, f3] * 1000000)
    \<and> (\<exists>dur. parseWebVTTTime [h1, h2, CHR '':'', m1, m2, CHR '':'', s1, s2, CHR ''.'', f1, f2, f3]
            = Inr dur
          \<and> sint dur = timestampMillis [h1, h2] [m1, m2] [s1, s2] [f1, f2, f3] * 1000000)"
  unfolding parseSRTTime_def parseWebVTTTime_def
  using parseTimeSep_timestamp_sint [OF assms, of "CHR '',''"]
    parseTimeSep_timestamp_sint [OF assms, of "CHR ''.''"]
  by simp

lemma isDigit_examples:
  "isDigit CHR ''0''" "isDigit CHR ''1''" "isDigit CHR ''2''" "isDigit CHR ''3''"
  "isDigit CHR ''4''" "isDigit CHR ''5''" "isDigit CHR ''6''" "isDigit CHR ''7''"
  "isDigit CHR ''8''" "isDigit CHR ''9''"
  by (simp_all add: isDigit_def)

theorem timestamp_value_witness:
  "(\<exists>dur. parseSRTTime ''01:23:45,678'' = Inr dur \<and> sint dur = 5025678 * 1000000)
   \<and> (\<exists>dur. parseWebVTTTime ''01:23:45.678'' = Inr dur \<and> sint dur = 5025678 * 1000000)"
proof -
  have ms: "timestampMillis ''01'' ''23'' ''45'' ''678'' = 5025678"
    by (simp add: timestampMillis_def decimal_def digitVal_def)
  show ?thesis
    using timestamp_value [of "CHR ''0''" "CHR ''1''" "CHR ''2''" "CHR ''3''" "CHR ''4''"
        "CHR ''5''" "CHR ''6''" "CHR ''7''" "CHR ''8''"]
    unfolding ms by (simp add: isDigit_examples)
qed

text \<open>
  C6 (as amended). The codec has three distinguishable failure modes, checked in the
  order of the source:
  \<^item> if the number of \<open>:\<close>-separated components is not 3, it fails with the
    invalid-time-format error;
  \<^item> otherwise, if the hours and the minutes component are numeric and the number of
    sub-second separator parts of the third component is not 2, it fails with the
    invalid-seconds-format error;
  \<^item> otherwise, if the hours or the minutes component is not numeric (whatever the
    number of sub-second parts), or there are 2 sub-second parts and any of the four
    components is not numeric, it fails with the numeric-conversion error.
\<close>

theorem codec_failure_modes:
  assumes "(parse, sep) \<in> {(parseSRTTime, CHR '',''), (parseWebVTTTime, CHR ''.'')}"
  shows "(length (Split s CHR '':'') \<noteq> 3 \<longrightarrow> parse s = Inl (InvalidTimeFormat s))
    \<and> (length (Split s CHR '':'') = 3
         \<and> numeric (Split s CHR '':'' ! 0) \<and> numeric (Split s CHR '':'' ! 1)
         \<and> length (Split (Split s CHR '':'' ! 2) sep) \<noteq> 2
        \<longrightarrow> parse s = Inl (InvalidSecondsFormat (Split s CHR '':'' ! 2)))
    \<and> (length (Split s CHR '':'') = 3
         \<and> (\<not> numeric (Split s CHR '':'' ! 0) \<or> \<not> numeric (Split s CHR '':'' ! 1))
        \<longrightarrow> (\<exists>num err. parse s = Inl (NumError num err)))
    \<and> (length (Split s CHR '':'') = 3
         \<and> length (Split (Split s CHR '':'' ! 2) sep) = 2
         \<and> (\<not> numeric (Split s CHR '':'' ! 0) \<or> \<not> numeric (Split s CHR '':'' ! 1)
             \<or> \<not> numeric (Split (Split s CHR '':'' ! 2) sep ! 0)
             \<or> \<not> numeric (Split (Split s CHR '':'' ! 2) sep ! 1))
        \<longrightarrow> (\<exists>num err. parse s = Inl (NumError num err)))"
proof -
  have p: "parse = parseTimeSep sep"
    using assms by (auto simp: parseSRTTime_def parseWebVTTTime_def fun_eq_iff)
  show ?thesis
    unfolding p
    by (auto simp: parseTimeSep_def numeric_def Let_def split: sum.splits)
qed

text \<open>
  The order of the claim (seconds format before any numeric check) fails: for the SRT
  codec \<open>ab:00:01.000\<close> has three components and a third component without a comma,
  and the error is the numeric-conversion error of the hours, not the
  invalid-seconds-format error.
\<close>

theorem codec_failure_order_counterexample:
  "length (Split ''ab:00:01.000'' CHR '':'') = 3
   \<and> length (Split (Split ''ab:00:01.000'' CHR '':'' ! 2) CHR '','') \<noteq> 2
   \<and> parseSRTTime ''ab:00:01.000'' = Inl (NumError ''ab'' ErrSyntax)
   \<and> parseSRTTime ''ab:00:01.000'' \<noteq> Inl (InvalidSecondsFormat ''01.000'')"
  by (simp add: parseSRTTime_def parseTimeSep_def Split_def Atoi_def isDigit_def)

theorem codec_failure_modes_witness:
  "(parseSRTTime, CHR '','') \<in> {(parseSRTTime, CHR '',''), (parseWebVTTTime, CHR ''.'')}
   \<and> length (Split ''00:00:01:000'' CHR '':'') \<noteq> 3
   \<and> parseSRTTime ''00:00:01:000'' = Inl (InvalidTimeFormat ''00:00:01:000'')
   \<and> length (Split ''00:00:01.000'' CHR '':'') = 3
   \<and> numeric (Split ''00:00:01.000'' CHR '':'' ! 0) \<and> numeric (Split ''00:00:01.000'' CHR '':'' ! 1)
   \<and> length (Split (Split ''00:00:01.000'' CHR '':'' ! 2) CHR '','') \<noteq> 2
   \<and> parseSRTTime ''00:00:01.000'' = Inl (InvalidSecondsFormat ''01.000'')
   \<and> length (Split (Split ''00:00:01,abc'' CHR '':'' ! 2) CHR '','') = 2
   \<and> \<not> numeric (Split (Split ''00:00:01,abc'' CHR '':'' ! 2) CHR '','' ! 1)
   \<and> (\<exists>num err. parseSRTTime ''00:00:01,abc'' = Inl (NumError num err))"
proof -
  have m: "(parseSRTTime, CHR '','') \<in> {(parseSRTTime, CHR '',''), (parseWebVTTTime, CHR ''.'')}"
    by simp
  have a: "Split ''00:00:01:000'' CHR '':'' = [''00'', ''00'', ''01'', ''000'']"
    by (simp add: Split_def)
  have b: "Split ''00:00:01.000'' CHR '':'' = [''00'', ''00'', ''01.000'']"
    "Split ''01.000'' CHR '','' = [''01.000'']"
    by (simp_all add: Split_def)
  have c: "Split ''00:00:01,abc'' CHR '':'' = [''00'', ''00'', ''01,abc'']"
    "Split ''01,abc'' CHR '','' = [''01'', ''abc'']"
    by (simp_all add: Split_def)
  have n: "numeric ''00''" "\<not> numeric ''abc''"
    by (simp_all add: numeric_def Atoi_def isDigit_def digitVal_def)
  show ?thesis
    using codec_failure_modes [OF m, of "''00:00:01:000''"]
      codec_failure_modes [OF m, of "''00:00:01.000''"]
      codec_failure_modes [OF m, of "''00:00:01,abc''"]
    by (simp add: a b c n)
qed

section \<open>Properties of strings.TrimSpace and strings.Join\<close>

lemma runeWidth_zero_iff:
  assumes "[] \<notin> set runes"
  shows "runeWidth runes s = 0 \<longleftrightarrow> (\<forall>t\<in>set runes. take (length t) s \<noteq> t)"
proof (cases "find (\<lambda>t. take (length t) s = t) runes")
  case None
  then have "runeWidth runes s = 0"
    by (simp add: runeWidth_def)
  moreover from None have "\<forall>t\<in>set runes. take (length t) s \<noteq> t"
    by (simp add: find_None_iff)
  ultimately show ?thesis by simp
next
  case (Some t)
  then have "t \<in> set runes" and "take (length t) s = t"
    by (auto simp: find_Some_iff)
  with Some assms show ?thesis by (auto simp: runeWidth_def)
qed

lemma runeWidth_pos:
  assumes "runeWidth runes s \<noteq> 0"
  shows "\<exists>t\<in>set runes. t \<noteq> [] \<and> length t = runeWidth runes s \<and> s = t @ drop (length t) s"
proof (cases "find (\<lambda>t. take (length t) s = t) runes")
  case None
  with assms show ?thesis by (simp add: runeWidth_def)
next
  case (Some t)
  then have t: "t \<in> set runes" "take (length t) s = t"
    by (auto simp: find_Some_iff)
  have w: "runeWidth runes s = length t"
    using Some by (simp add: runeWidth_def)
  have "s = take (length t) s @ drop (length t) s" by simp
  with t have "s = t @ drop (length t) s" by simp
  with t w assms show ?thesis by auto
qed

lemma trimLeftRunes_width:
  assumes "[] \<notin> set runes"
  shows "runeWidth runes (trimLeftRunes runes s) = 0"
  using assms
proof (induction runes s rule: trimLeftRunes.induct)
  case (1 runes)
  then show ?case by (auto simp: runeWidth_zero_iff)
next
  case (2 runes c cs)
  then show ?case by simp
qed

lemma trimLeftRunes_suffix: "\<exists>p. s = p @ trimLeftRunes runes s"
proof (induction runes s rule: trimLeftRunes.induct)
  case (1 runes)
  then show ?case by simp
next
  case (2 runes c cs)
  show ?case
  proof (cases "runeWidth runes (c # cs) = 0")
    case True
    then show ?thesis by simp
  next
    case False
    with 2 obtain p where "drop (runeWidth runes (c # cs) - 1) cs
        = p @ trimLeftRunes runes (drop (runeWidth runes (c # cs) - 1) cs)"
      by blast
    then have "c # cs = (c # take (runeWidth runes (c # cs) - 1) cs @ p)
        @ trimLeftRunes runes (drop (runeWidth runes (c # cs) - 1) cs)"
      by (metis append_Cons append_assoc append_take_drop_id)
    with False show ?thesis by (metis trimLeftRunes.simps(2))
  qed
qed

lemma trimLeftRunes_empty:
  assumes "trimLeftRunes runes s = []" and "s \<noteq> []"
  shows "\<exists>t\<in>set runes. t \<noteq> [] \<and> (\<exists>p. s = p @ t)"
  using assms
proof (induction runes s rule: trimLeftRunes.induct)
  case (1 runes)
  then show ?case by simp
next
  case (2 runes c cs)
  let ?w = "runeWidth runes (c # cs)"
  from "2.prems" have w: "?w \<noteq> 0"
    by (auto split: if_splits)
  then obtain t where t: "t \<in> set runes" "t \<noteq> []" "length t = ?w"
      "c # cs = t @ drop (length t) (c # cs)"
    using runeWidth_pos by blast
  have d: "drop (length t) (c # cs) = drop (?w - 1) cs"
    using t(3) w by (cases ?w) simp_all
  show ?case
  proof (cases "drop (?w - 1) cs = []")
    case True
    with t d have "c # cs = [] @ t" by simp
    with t show ?thesis by blast
  next
    case False
    from "2.prems" w have "trimLeftRunes runes (drop (?w - 1) cs) = []"
      by simp
    with "2.IH" w False obtain t' p where t': "t' \<in> set runes" "t' \<noteq> []"
        "drop (?w - 1) cs = p @ t'"
      by blast
    with t d have "c # cs = (t @ p) @ t'" by simp
    with t' show ?thesis by blast
  qed
qed

lemma spaceRunes_nonempty: "[] \<notin> set spaceRunes"
  by (simp add: spaceRunes_def)

lemma spaceRunes_tail_no_blank: "\<forall>t\<in>set spaceRunes. CHR '' '' \<notin> set (tl t)"
  by (simp add: spaceRunes_def)

lemma TrimRight_prefix: "\<exists>z. s = TrimRight s @ z"
proof -
  obtain p where "rev s = p @ trimLeftRunes (map rev spaceRunes) (rev s)"
    using trimLeftRunes_suffix by blast
  then have "rev (rev s) = rev (p @ trimLeftRunes (map rev spaceRunes) (rev s))"
    by simp
  then have "s = TrimRight s @ rev p"
    by (simp add: TrimRight_def)
  then show ?thesis ..
qed

lemma TrimSpace_trimmedLine:
  assumes "TrimSpace l \<noteq> []"
  shows "trimmedLine (TrimSpace l)"
proof -
  let ?y = "TrimLeft l"
  let ?x = "TrimSpace l"
  have y0: "\<forall>t\<in>set spaceRunes. take (length t) ?y \<noteq> t"
    using trimLeftRunes_width [OF spaceRunes_nonempty, of l]
    by (simp add: TrimLeft_def runeWidth_zero_iff [OF spaceRunes_nonempty])
  obtain z where z: "?y = ?x @ z"
    using TrimRight_prefix [of ?y] by (auto simp: TrimSpace_def)
  have "take (length t) ?x \<noteq> t" if t: "t \<in> set spaceRunes" for t
  proof
    assume eq: "take (length t) ?x = t"
    from arg_cong [OF eq, of length] have le: "length t \<le> length ?x"
      by simp
    have "take (length t) (?x @ z) = take (length t) ?x"
      using le by simp
    then have "take (length t) ?y = take (length t) ?x"
      using z by simp
    with eq y0 t show False by simp
  qed
  then have "runeWidth spaceRunes ?x = 0"
    by (simp add: runeWidth_zero_iff [OF spaceRunes_nonempty])
  with assms show ?thesis by (simp add: trimmedLine_def)
qed

lemma trimmedLine_TrimSpace:
  assumes "trimmedLine s"
  shows "TrimSpace s \<noteq> []"
proof
  assume e: "TrimSpace s = []"
  from assms have ne: "s \<noteq> []" and w: "runeWidth spaceRunes s = 0"
    by (simp_all add: trimmedLine_def)
  have left: "TrimLeft s = s"
    using ne w by (cases s) (simp_all add: TrimLeft_def)
  with e have "trimLeftRunes (map rev spaceRunes) (rev s) = []"
    by (simp add: TrimSpace_def TrimRight_def)
  moreover have "rev s \<noteq> []" using ne by simp
  ultimately obtain t p where t: "t \<in> set (map rev spaceRunes)" "rev s = p @ t"
    using trimLeftRunes_empty by blast
  then obtain t0 where t0: "t0 \<in> set spaceRunes" "t = rev t0"
    by auto
  from t t0 have "rev (rev s) = rev (p @ rev t0)" by simp
  then have "s = t0 @ rev p" by simp
  then have "take (length t0) s = t0" by simp
  with t0 w show False
    by (simp add: runeWidth_zero_iff [OF spaceRunes_nonempty])
qed

lemma trimmedLine_append_blank:
  assumes "trimmedLine l"
  shows "trimmedLine (l @ CHR '' '' # rest)"
proof -
  from assms have ne: "l \<noteq> []"
    and w: "\<forall>t\<in>set spaceRunes. take (length t) l \<noteq> t"
    by (simp_all add: trimmedLine_def runeWidth_zero_iff [OF spaceRunes_nonempty])
  have "take (length t) (l @ CHR '' '' # rest) \<noteq> t" if t: "t \<in> set spaceRunes" for t
  proof
    assume eq: "take (length t) (l @ CHR '' '' # rest) = t"
    show False
    proof (cases "length t \<le> length l")
      case True
      with eq have "take (length t) l = t" by simp
      with w t show False by simp
    next
      case False
      then have lt: "length l < length t" by simp
      have "t ! length l = (l @ CHR '' '' # rest) ! length l"
        using eq lt by (metis nth_take)
      then have "t ! length l = CHR '' ''" by simp
      moreover have pos: "0 < length l" using ne by simp
      moreover have inb: "length l - 1 < length (tl t)"
        using lt pos by (simp del: length_greater_0_conv)
      moreover from inb have "tl t ! (length l - 1) = t ! Suc (length l - 1)"
        by (rule nth_tl)
      ultimately have "tl t ! (length l - 1) = CHR '' ''"
        by simp
      with inb have "CHR '' '' \<in> set (tl t)"
        by (metis nth_mem)
      with spaceRunes_tail_no_blank t show False by blast
    qed
  qed
  then show ?thesis
    using ne by (simp add: trimmedLine_def runeWidth_zero_iff [OF spaceRunes_nonempty])
qed

lemma Join_cons:
  "Join (l # ls) sep = (if ls = [] then l else l @ sep @ Join ls sep)"
  by (cases ls) simp_all

lemma trimmedLine_Join:
  assumes "ls \<noteq> []" and "\<forall>l\<in>set ls. trimmedLine l"
  shows "trimmedLine (Join ls '' '')"
proof (cases ls)
  case Nil
  with assms show ?thesis by simp
next
  case (Cons l rest)
  with assms have "trimmedLine l" by simp
  then show ?thesis
    using trimmedLine_append_blank [of l] by (simp add: Cons Join_cons)
qed

section \<open>Properties of the block scanners\<close>

lemma matchSeq_Cons:
  "matchSeq (p # ps) s = Some r \<longleftrightarrow> (\<exists>c cs. s = c # cs \<and> clsOk p c \<and> matchSeq ps cs = Some r)"
  by (cases s) auto

lemma matchSeq_prefix:
  "matchSeq ps s = Some r \<Longrightarrow> matchSeq ps (take (length ps) s) = Some []"
  by (induction ps s rule: matchSeq.induct) (auto split: if_splits)

lemma matchSeq_isTimestamp:
  assumes "matchSeq (timestampPattern sep) s = Some r"
  shows "isTimestamp sep (take 12 s)"
proof -
  have "length (timestampPattern sep) = 12"
    by (simp add: timestampPattern_def)
  with matchSeq_prefix [OF assms] show ?thesis
    by (simp only: isTimestamp_def)
qed

lemma isTimestamp_shape:
  assumes "isTimestamp sep s"
  shows "\<exists>h1 h2 m1 m2 s1 s2 f1 f2 f3.
    s = [h1, h2, CHR '':'', m1, m2, CHR '':'', s1, s2, sep, f1, f2, f3]
    \<and> isDigit h1 \<and> isDigit h2 \<and> isDigit m1 \<and> isDigit m2 \<and> isDigit s1 \<and> isDigit s2
    \<and> isDigit f1 \<and> isDigit f2 \<and> isDigit f3"
  using assms
  by (auto simp: isTimestamp_def timestampPattern_def matchSeq_Cons)

lemma isTimestamp_parses:
  assumes "isTimestamp sep s" and "sep = CHR '','' \<or> sep = CHR ''.''"
  shows "\<exists>dur. parseTimeSep sep s = Inr dur"
proof -
  from isTimestamp_shape [OF assms(1)] obtain h1 h2 m1 m2 s1 s2 f1 f2 f3 where
    s: "s = [h1, h2, CHR '':'', m1, m2, CHR '':'', s1, s2, sep, f1, f2, f3]"
    and d: "isDigit h1" "isDigit h2" "isDigit m1" "isDigit m2" "isDigit s1" "isDigit s2"
      "isDigit f1" "isDigit f2" "isDigit f3"
    by blast
  show ?thesis
    unfolding s using parseTimeSep_timestamp [OF d assms(2)] by blast
qed

lemma matchTimingAt_groups:
  assumes "matchTimingAt sep s = Some (a, b)"
  shows "isTimestamp sep a \<and> isTimestamp sep b"
  using assms
  by (auto simp: matchTimingAt_def matchSeq_isTimestamp split: option.splits if_splits)

lemma FindStringSubmatch_groups:
  assumes "FindStringSubmatch sep s = Some (a, b)"
  shows "isTimestamp sep a \<and> isTimestamp sep b"
  using assms
proof (induction s)
  case Nil
  then show ?case by (simp add: matchTimingAt_groups)
next
  case (Cons c cs)
  then show ?case
    by (cases "matchTimingAt sep (c # cs)") (auto simp: matchTimingAt_groups)
qed

lemma captured_groups_parse:
  assumes "FindStringSubmatch sep s = Some (a, b)" and "sep = CHR '','' \<or> sep = CHR ''.''"
  shows "\<exists>t1 t2. parseTimeSep sep a = Inr t1 \<and> parseTimeSep sep b = Inr t2"
  using FindStringSubmatch_groups [OF assms(1)] isTimestamp_parses [OF _ assms(2)]
  by blast

lemma timingOrText_srt_total:
  "\<exists>st'. timingOrText srtTimeRegex parseSRTTime st line = Inr st'"
proof (cases "srtTimeRegex line")
  case None
  then show ?thesis by (simp add: timingOrText_def)
next
  case (Some m)
  obtain a b where m: "m = (a, b)" by (cases m)
  with Some have "FindStringSubmatch CHR '','' line = Some (a, b)"
    by (simp add: srtTimeRegex_def)
  then obtain t1 t2 where "parseSRTTime a = Inr t1" "parseSRTTime b = Inr t2"
    using captured_groups_parse [of "CHR '',''" line a b] by (auto simp: parseSRTTime_def)
  with Some m show ?thesis by (simp add: timingOrText_def)
qed

lemma timingOrText_vtt_total:
  "\<exists>st'. timingOrText vttTimeRegex parseWebVTTTime st line = Inr st'"
proof (cases "vttTimeRegex line")
  case None
  then show ?thesis by (simp add: timingOrText_def)
next
  case (Some m)
  obtain a b where m: "m = (a, b)" by (cases m)
  with Some have "FindStringSubmatch CHR ''.'' line = Some (a, b)"
    by (simp add: vttTimeRegex_def)
  then obtain t1 t2 where "parseWebVTTTime a = Inr t1" "parseWebVTTTime b = Inr t2"
    using captured_groups_parse [of "CHR ''.''" line a b] by (auto simp: parseWebVTTTime_def)
  with Some m show ?thesis by (simp add: timingOrText_def)
qed

lemma srtStep_total: "\<exists>st'. srtStep st raw = Inr st'"
  by (simp add: srtStep_def Let_def timingOrText_srt_total)

lemma vttStep_total: "\<exists>st'. vttStep st raw = Inr st'"
  by (simp add: vttStep_def Let_def timingOrText_vtt_total)

lemma srtLoop_total: "\<exists>st'. srtLoop st scanned = Inr st'"
proof (induction scanned arbitrary: st)
  case Nil
  then show ?case by simp
next
  case (Cons l rest)
  obtain st1 where "srtStep st l = Inr st1"
    using srtStep_total by blast
  with Cons show ?case by simp
qed

lemma vttLoop_total: "\<exists>st'. vttLoop st scanned = Inr st'"
proof (induction scanned arbitrary: st)
  case Nil
  then show ?case by simp
next
  case (Cons l rest)
  obtain st1 where "vttStep st l = Inr st1"
    using vttStep_total by blast
  with Cons show ?case by simp
qed

lemma ParseSRT_error: "snd (ParseSRT scanned scanErr) = map_option ScannerError scanErr"
proof -
  obtain st where "srtLoop srtInit scanned = Inr st"
    using srtLoop_total by blast
  then show ?thesis by (simp add: ParseSRT_def)
qed

lemma ParseWebVTT_error: "snd (ParseWebVTT scanned scanErr) = map_option ScannerError scanErr"
proof -
  obtain st where "vttLoop vttInit scanned = Inr st"
    using vttLoop_total by blast
  then show ?thesis by (simp add: ParseWebVTT_def)
qed

text \<open>
  C5. The start-time and end-time error branches of \<^verbatim>\<open>ParseSRT\<close> and
  \<^verbatim>\<open>ParseWebVTT\<close> are unreachable: the two groups that the timing regular expression
  captures on any line are always accepted by the parser's codec, and for every input
  the error that a parser returns is the scanner's own error or none, never a timing
  error.
\<close>

theorem timing_error_unreachable:
  "(srtTimeRegex srtLine = Some (m1, m2) \<longrightarrow>
      (\<exists>t1 t2. parseSRTTime m1 = Inr t1 \<and> parseSRTTime m2 = Inr t2))
   \<and> (vttTimeRegex vttLine = Some (n1, n2) \<longrightarrow>
      (\<exists>t1 t2. parseWebVTTTime n1 = Inr t1 \<and> parseWebVTTTime n2 = Inr t2))
   \<and> snd (ParseSRT scanned scanErr) = map_option ScannerError scanErr
   \<and> snd (ParseWebVTT scanned scanErr) = map_option ScannerError scanErr"
  using captured_groups_parse [of "CHR '',''" srtLine m1 m2]
    captured_groups_parse [of "CHR ''.''" vttLine n1 n2]
  by (simp add: srtTimeRegex_def vttTimeRegex_def parseSRTTime_def parseWebVTTTime_def
      ParseSRT_error ParseWebVTT_error)

lemma srtTimeRegex_example:
  "srtTimeRegex ''00:00:01,000 --> 00:00:04,000'' = Some (''00:00:01,000'', ''00:00:04,000'')"
  by code_simp

lemma vttTimeRegex_example:
  "vttTimeRegex ''00:00:01.000 --> 00:00:04.000'' = Some (''00:00:01.000'', ''00:00:04.000'')"
  by code_simp

theorem timing_error_unreachable_witness:
  "srtTimeRegex ''00:00:01,000 --> 00:00:04,000'' = Some (''00:00:01,000'', ''00:00:04,000'')
   \<and> (\<exists>t1 t2. parseSRTTime ''00:00:01,000'' = Inr t1 \<and> parseSRTTime ''00:00:04,000'' = Inr t2)
   \<and> vttTimeRegex ''00:00:01.000 --> 00:00:04.000'' = Some (''00:00:01.000'', ''00:00:04.000'')
   \<and> (\<exists>t1 t2. parseWebVTTTime ''00:00:01.000'' = Inr t1 \<and> parseWebVTTTime ''00:00:04.000'' = Inr t2)"
  using timing_error_unreachable [of "''00:00:01,000 --> 00:00:04,000''" "''00:00:01,000''"
      "''00:00:04,000''" "''00:00:01.000 --> 00:00:04.000''" "''00:00:01.000''" "''00:00:04.000''"
      "[]" None]
    srtTimeRegex_example vttTimeRegex_example
  by blast

lemma timingOrText_text:
  assumes "timeRegex line = None"
  shows "timingOrText timeRegex parseTime st line = Inr (st\<lparr>textLines := textLines st @ [line]\<rparr>)"
  using assms by (simp add: timingOrText_def)

lemma timingOrText_converts:
  assumes "\<forall>m1 m2. timeRegex line = Some (m1, m2) \<longrightarrow>
      (\<exists>t1 t2. parseTime m1 = Inr t1 \<and> parseTime m2 = Inr t2)"
  shows "\<exists>st'. timingOrText timeRegex parseTime st line = Inr st'"
proof (cases "timeRegex line")
  case None
  then show ?thesis by (simp add: timingOrText_def)
next
  case (Some m)
  obtain m1 m2 where m: "m = (m1, m2)" by (cases m)
  with Some assms obtain t1 t2 where "parseTime m1 = Inr t1" "parseTime m2 = Inr t2"
    by blast
  with Some m show ?thesis by (simp add: timingOrText_def)
qed

lemma srtStep_converts:
  assumes "\<forall>m1 m2. srtTimeRegex (TrimSpace l) = Some (m1, m2) \<longrightarrow>
      (\<exists>t1 t2. parseSRTTime m1 = Inr t1 \<and> parseSRTTime m2 = Inr t2)"
  shows "\<exists>st'. srtStep st l = Inr st'"
  by (simp add: srtStep_def Let_def
      timingOrText_converts [of srtTimeRegex "TrimSpace l" parseSRTTime, OF assms])

lemma vttStep_converts:
  assumes "\<forall>m1 m2. vttTimeRegex (TrimSpace l) = Some (m1, m2) \<longrightarrow>
      (\<exists>t1 t2. parseWebVTTTime m1 = Inr t1 \<and> parseWebVTTTime m2 = Inr t2)"
  shows "\<exists>st'. vttStep st l = Inr st'"
  by (simp add: vttStep_def Let_def
      timingOrText_converts [of vttTimeRegex "TrimSpace l" parseWebVTTTime, OF assms])

lemma srtLoop_converts:
  assumes "\<forall>l\<in>set scanned. \<forall>m1 m2. srtTimeRegex (TrimSpace l) = Some (m1, m2) \<longrightarrow>
      (\<exists>t1 t2. parseSRTTime m1 = Inr t1 \<and> parseSRTTime m2 = Inr t2)"
  shows "\<exists>st'. srtLoop st scanned = Inr st'"
  using assms
proof (induction scanned arbitrary: st)
  case Nil
  then show ?case by simp
next
  case (Cons l rest)
  then obtain st1 where "srtStep st l = Inr st1"
    using srtStep_converts [of l st] by auto
  with Cons show ?case by simp
qed

lemma vttLoop_converts:
  assumes "\<forall>l\<in>set scanned. \<forall>m1 m2. vttTimeRegex (TrimSpace l) = Some (m1, m2) \<longrightarrow>
      (\<exists>t1 t2. parseWebVTTTime m1 = Inr t1 \<and> parseWebVTTTime m2 = Inr t2)"
  shows "\<exists>st'. vttLoop st scanned = Inr st'"
  using assms
proof (induction scanned arbitrary: st)
  case Nil
  then show ?case by simp
next
  case (Cons l rest)
  then obtain st1 where "vttStep st l = Inr st1"
    using vttStep_converts [of l st] by auto
  with Cons show ?case by simp
qed

lemma scanLoop_short:
  assumes "\<forall>l\<in>set ls. int (length l) < MaxScanTokenSize"
  shows "scanLoop ls = (map dropCR ls, None)"
  using assms by (induction ls) simp_all

text \<open>
  C4 (as amended). Of the lines that the line scanner yields (a line of 64 KiB or more is
  not yielded: the scan ends there and the parser returns the scanner's token-too-long
  error), every line that is not blank after trimming, is not consumed as the sequence
  number of an SRT block nor skipped as a WebVTT header line, and does not match the
  timing regular expression is appended, trimmed, to the text lines of the current
  block, and no scanned line that fails to match makes a step of the scanner fail, in
  any state. A parser returns a timing error only when a line matches the timing regular
  expression and the codec rejects one of its groups: when every scanned line either
  fails to match or has both groups converted, the error returned is the line scanner's
  own or none; and an input all of whose lines are shorter than 64 KiB and fail to match
  is parsed without any error.
\<close>

theorem non_matching_line_is_text:
  "(TrimSpace l \<noteq> [] \<and> \<not> expectingSequence st \<and> srtTimeRegex (TrimSpace l) = None \<longrightarrow>
      srtStep st l = Inr (st\<lparr>textLines := textLines st @ [TrimSpace l]\<rparr>))
   \<and> (TrimSpace l \<noteq> []
       \<and> \<not> (inHeader vt \<and> (HasPrefix (TrimSpace l) ''WEBVTT'' \<or> HasPrefix (TrimSpace l) ''NOTE''))
       \<and> vttTimeRegex (TrimSpace l) = None \<longrightarrow>
      vttStep vt l = Inr (vt\<lparr>inHeader := False, textLines := textLines vt @ [TrimSpace l]\<rparr>))
   \<and> (srtTimeRegex (TrimSpace l) = None \<longrightarrow> (\<exists>st'. srtStep st l = Inr st'))
   \<and> (vttTimeRegex (TrimSpace l) = None \<longrightarrow> (\<exists>vt'. vttStep vt l = Inr vt'))
   \<and> ((\<forall>s\<in>set scanned. \<forall>m1 m2. srtTimeRegex (TrimSpace s) = Some (m1, m2) \<longrightarrow>
          (\<exists>t1 t2. parseSRTTime m1 = Inr t1 \<and> parseSRTTime m2 = Inr t2)) \<longrightarrow>
        snd (ParseSRT scanned scanErr) = map_option ScannerError scanErr)
   \<and> ((\<forall>s\<in>set scanned. \<forall>m1 m2. vttTimeRegex (TrimSpace s) = Some (m1, m2) \<longrightarrow>
          (\<exists>t1 t2. parseWebVTTTime m1 = Inr t1 \<and> parseWebVTTTime m2 = Inr t2)) \<longrightarrow>
        snd (ParseWebVTT scanned scanErr) = map_option ScannerError scanErr)
   \<and> ((\<forall>r\<in>set (rawLines data).
          int (length r) < MaxScanTokenSize \<and> srtTimeRegex (TrimSpace (dropCR r)) = None) \<longrightarrow>
        snd (ParseSRTOn data) = None)
   \<and> ((\<forall>r\<in>set (rawLines data).
          int (length r) < MaxScanTokenSize \<and> vttTimeRegex (TrimSpace (dropCR r)) = None) \<longrightarrow>
        snd (ParseWebVTTOn data) = None)"
proof (intro conjI impI)
  assume "TrimSpace l \<noteq> [] \<and> \<not> expectingSequence st \<and> srtTimeRegex (TrimSpace l) = None"
  then show "srtStep st l = Inr (st\<lparr>textLines := textLines st @ [TrimSpace l]\<rparr>)"
    by (simp add: srtStep_def timingOrText_text)
next
  assume "TrimSpace l \<noteq> []
       \<and> \<not> (inHeader vt \<and> (HasPrefix (TrimSpace l) ''WEBVTT'' \<or> HasPrefix (TrimSpace l) ''NOTE''))
       \<and> vttTimeRegex (TrimSpace l) = None"
  then show "vttStep vt l = Inr (vt\<lparr>inHeader := False, textLines := textLines vt @ [TrimSpace l]\<rparr>)"
    by (auto simp: vttStep_def Let_def timingOrText_text)
next
  assume "srtTimeRegex (TrimSpace l) = None"
  then show "\<exists>st'. srtStep st l = Inr st'"
    by (auto simp: srtStep_def Let_def timingOrText_text)
next
  assume "vttTimeRegex (TrimSpace l) = None"
  then show "\<exists>vt'. vttStep vt l = Inr vt'"
    by (auto simp: vttStep_def Let_def timingOrText_text)
next
  assume "\<forall>s\<in>set scanned. \<forall>m1 m2. srtTimeRegex (TrimSpace s) = Some (m1, m2) \<longrightarrow>
          (\<exists>t1 t2. parseSRTTime m1 = Inr t1 \<and> parseSRTTime m2 = Inr t2)"
  then obtain st' where "srtLoop srtInit scanned = Inr st'"
    using srtLoop_converts by blast
  then show "snd (ParseSRT scanned scanErr) = map_option ScannerError scanErr"
    by (simp add: ParseSRT_def)
next
  assume "\<forall>s\<in>set scanned. \<forall>m1 m2. vttTimeRegex (TrimSpace s) = Some (m1, m2) \<longrightarrow>
          (\<exists>t1 t2. parseWebVTTTime m1 = Inr t1 \<and> parseWebVTTTime m2 = Inr t2)"
  then obtain st' where "vttLoop vttInit scanned = Inr st'"
    using vttLoop_converts by blast
  then show "snd (ParseWebVTT scanned scanErr) = map_option ScannerError scanErr"
    by (simp add: ParseWebVTT_def)
next
  assume a: "\<forall>r\<in>set (rawLines data).
          int (length r) < MaxScanTokenSize \<and> srtTimeRegex (TrimSpace (dropCR r)) = None"
  then have sc: "scanLines data = (map dropCR (rawLines data), None)"
    by (simp add: scanLines_def scanLoop_short)
  from a have "\<forall>s\<in>set (map dropCR (rawLines data)). \<forall>m1 m2.
      srtTimeRegex (TrimSpace s) = Some (m1, m2) \<longrightarrow>
      (\<exists>t1 t2. parseSRTTime m1 = Inr t1 \<and> parseSRTTime m2 = Inr t2)"
    by simp
  then obtain st' where "srtLoop srtInit (map dropCR (rawLines data)) = Inr st'"
    using srtLoop_converts by blast
  then show "snd (ParseSRTOn data) = None"
    by (simp add: ParseSRTOn_def sc ParseSRT_def)
next
  assume a: "\<forall>r\<in>set (rawLines data).
          int (length r) < MaxScanTokenSize \<and> vttTimeRegex (TrimSpace (dropCR r)) = None"
  then have sc: "scanLines data = (map dropCR (rawLines data), None)"
    by (simp add: scanLines_def scanLoop_short)
  from a have "\<forall>s\<in>set (map dropCR (rawLines data)). \<forall>m1 m2.
      vttTimeRegex (TrimSpace s) = Some (m1, m2) \<longrightarrow>
      (\<exists>t1 t2. parseWebVTTTime m1 = Inr t1 \<and> parseWebVTTTime m2 = Inr t2)"
    by simp
  then obtain st' where "vttLoop vttInit (map dropCR (rawLines data)) = Inr st'"
    using vttLoop_converts by blast
  then show "snd (ParseWebVTTOn data) = None"
    by (simp add: ParseWebVTTOn_def sc ParseWebVTT_def)
qed


lemma malformed_line_facts:
  "TrimSpace ''00:00:01-00:00:04'' = ''00:00:01-00:00:04''"
  "srtTimeRegex ''00:00:01-00:00:04'' = None"
  "vttTimeRegex ''00:00:01-00:00:04'' = None"
  "HasPrefix ''00:00:01-00:00:04'' ''WEBVTT'' = False"
  "HasPrefix ''00:00:01-00:00:04'' ''NOTE'' = False"
  by code_simp+

lemma timing_line_facts:
  "TrimSpace ''1'' = ''1''" "srtTimeRegex ''1'' = None"
  "TrimSpace ''Hello'' = ''Hello''" "srtTimeRegex ''Hello'' = None" "vttTimeRegex ''Hello'' = None"
  "TrimSpace ''00:00:01,000 --> 00:00:04,000'' = ''00:00:01,000 --> 00:00:04,000''"
  "srtTimeRegex ''00:00:01,000 --> 00:00:04,000'' = Some (''00:00:01,000'', ''00:00:04,000'')"
  "parseSRTTime ''00:00:01,000'' = Inr (secs 1)" "parseSRTTime ''00:00:04,000'' = Inr (secs 4)"
  "TrimSpace ''00:00:01.000 --> 00:00:04.000'' = ''00:00:01.000 --> 00:00:04.000''"
  "vttTimeRegex ''00:00:01.000 --> 00:00:04.000'' = Some (''00:00:01.000'', ''00:00:04.000'')"
  "parseWebVTTTime ''00:00:01.000'' = Inr (secs 1)" "parseWebVTTTime ''00:00:04.000'' = Inr (secs 4)"
  by code_simp+

lemma block_with_malformed_line:
  "rawLines (''1'' @ CHR 0x0A # ''00:00:01-00:00:04'' @ CHR 0x0A # ''Hello'')
     = [''1'', ''00:00:01-00:00:04'', ''Hello'']"
  "dropCR ''1'' = ''1''" "dropCR ''00:00:01-00:00:04'' = ''00:00:01-00:00:04''"
  "dropCR ''Hello'' = ''Hello''"
  "fst (ParseSRTOn (''1'' @ CHR 0x0A # ''00:00:01-00:00:04'' @ CHR 0x0A # ''Hello''))
     = [entry 0 0 ''00:00:01-00:00:04 Hello'']"
  by code_simp+

theorem non_matching_line_is_text_witness:
  "TrimSpace ''00:00:01-00:00:04'' \<noteq> []
   \<and> \<not> expectingSequence (srtInit\<lparr>expectingSequence := False\<rparr>)
   \<and> srtTimeRegex (TrimSpace ''00:00:01-00:00:04'') = None
   \<and> srtStep (srtInit\<lparr>expectingSequence := False\<rparr>) ''00:00:01-00:00:04''
       = Inr (srtInit\<lparr>expectingSequence := False, textLines := [''00:00:01-00:00:04'']\<rparr>)
   \<and> vttTimeRegex (TrimSpace ''00:00:01-00:00:04'') = None
   \<and> vttStep vttInit ''00:00:01-00:00:04''
       = Inr (vttInit\<lparr>inHeader := False, textLines := [''00:00:01-00:00:04'']\<rparr>)
   \<and> snd (ParseSRT [''1'', ''00:00:01,000 --> 00:00:04,000'', ''00:00:01-00:00:04''] None) = None
   \<and> snd (ParseWebVTT [''00:00:01.000 --> 00:00:04.000'', ''00:00:01-00:00:04''] None) = None
   \<and> snd (ParseSRTOn (''1'' @ CHR 0x0A # ''00:00:01-00:00:04'' @ CHR 0x0A # ''Hello'')) = None
   \<and> snd (ParseWebVTTOn (''1'' @ CHR 0x0A # ''00:00:01-00:00:04'' @ CHR 0x0A # ''Hello'')) = None
   \<and> fst (ParseSRTOn (''1'' @ CHR 0x0A # ''00:00:01-00:00:04'' @ CHR 0x0A # ''Hello''))
       = [entry 0 0 ''00:00:01-00:00:04 Hello'']"
proof -
  let ?m = "''00:00:01-00:00:04''"
  let ?st = "srtInit\<lparr>expectingSequence := False\<rparr>"
  let ?srt = "[''1'', ''00:00:01,000 --> 00:00:04,000'', ''00:00:01-00:00:04'']"
  let ?vtt = "[''00:00:01.000 --> 00:00:04.000'', ''00:00:01-00:00:04'']"
  let ?data = "''1'' @ CHR 0x0A # ''00:00:01-00:00:04'' @ CHR 0x0A # ''Hello''"
  note t = non_matching_line_is_text [of ?m ?st vttInit ?srt None ?data]
  note u = non_matching_line_is_text [of ?m ?st vttInit ?vtt None ?data]
  have vtt1: "vttTimeRegex ''1'' = None"
    by code_simp
  have p1: "TrimSpace ?m \<noteq> [] \<and> \<not> expectingSequence ?st \<and> srtTimeRegex (TrimSpace ?m) = None"
    by (simp add: malformed_line_facts)
  have p2: "TrimSpace ?m \<noteq> []
       \<and> \<not> (inHeader vttInit \<and> (HasPrefix (TrimSpace ?m) ''WEBVTT'' \<or> HasPrefix (TrimSpace ?m) ''NOTE''))
       \<and> vttTimeRegex (TrimSpace ?m) = None"
    by (simp add: malformed_line_facts)
  have p3: "\<forall>s\<in>set ?srt. \<forall>m1 m2. srtTimeRegex (TrimSpace s) = Some (m1, m2) \<longrightarrow>
          (\<exists>t1 t2. parseSRTTime m1 = Inr t1 \<and> parseSRTTime m2 = Inr t2)"
    by (simp add: malformed_line_facts timing_line_facts)
  have p4: "\<forall>s\<in>set ?vtt. \<forall>m1 m2. vttTimeRegex (TrimSpace s) = Some (m1, m2) \<longrightarrow>
          (\<exists>t1 t2. parseWebVTTTime m1 = Inr t1 \<and> parseWebVTTTime m2 = Inr t2)"
    by (simp add: malformed_line_facts timing_line_facts)
  have p5: "\<forall>r\<in>set (rawLines ?data).
          int (length r) < MaxScanTokenSize \<and> srtTimeRegex (TrimSpace (dropCR r)) = None"
    unfolding block_with_malformed_line(1)
    by (simp add: MaxScanTokenSize_def malformed_line_facts timing_line_facts
        block_with_malformed_line(2-4))
  have p6: "\<forall>r\<in>set (rawLines ?data).
          int (length r) < MaxScanTokenSize \<and> vttTimeRegex (TrimSpace (dropCR r)) = None"
    unfolding block_with_malformed_line(1)
    by (simp add: MaxScanTokenSize_def malformed_line_facts timing_line_facts vtt1
        block_with_malformed_line(2-4))
  from t p1 have "srtStep ?st ?m = Inr (?st\<lparr>textLines := textLines ?st @ [TrimSpace ?m]\<rparr>)"
    by blast
  then have c1: "srtStep ?st ?m = Inr (srtInit\<lparr>expectingSequence := False, textLines := [?m]\<rparr>)"
    by (simp add: malformed_line_facts srtInit_def)
  from t p2
  have "vttStep vttInit ?m = Inr (vttInit\<lparr>inHeader := False, textLines := textLines vttInit @ [TrimSpace ?m]\<rparr>)"
    by blast
  then have c2: "vttStep vttInit ?m = Inr (vttInit\<lparr>inHeader := False, textLines := [?m]\<rparr>)"
    by (simp add: malformed_line_facts vttInit_def)
  from t p3 have "snd (ParseSRT ?srt None) = map_option ScannerError None"
    by blast
  then have c3: "snd (ParseSRT ?srt None) = None"
    by simp
  from u p4 have "snd (ParseWebVTT ?vtt None) = map_option ScannerError None"
    by blast
  then have c4: "snd (ParseWebVTT ?vtt None) = None"
    by simp
  from t p5 have c5: "snd (ParseSRTOn ?data) = None"
    by blast
  from t p6 have c6: "snd (ParseWebVTTOn ?data) = None"
    by blast
  from p1 p2 c1 c2 c3 c4 c5 c6 block_with_malformed_line(5) show ?thesis
    by blast
qed

lemma not_digit_x: "\<not> isDigit CHR ''x''"
  by (simp add: isDigit_def)

lemma FindStringSubmatch_replicate_x:
  "FindStringSubmatch sep (replicate n CHR ''x'') = None"
  by (induction n) (simp_all add: matchTimingAt_def timestampPattern_def not_digit_x)

lemma runeWidth_x:
  "runeWidth spaceRunes (CHR ''x'' # cs) = 0"
  "runeWidth (map rev spaceRunes) (CHR ''x'' # cs) = 0"
  by (simp_all add: runeWidth_def spaceRunes_def)

lemma trimLeftRunes_replicate_x:
  "trimLeftRunes spaceRunes (replicate n CHR ''x'') = replicate n CHR ''x''"
  "trimLeftRunes (map rev spaceRunes) (replicate n CHR ''x'') = replicate n CHR ''x''"
  by (cases n; simp add: runeWidth_x)+

lemma TrimSpace_replicate_x: "TrimSpace (replicate n CHR ''x'') = replicate n CHR ''x''"
  by (simp add: TrimSpace_def TrimLeft_def TrimRight_def trimLeftRunes_replicate_x)

lemma splitLoop_replicate:
  assumes "x \<noteq> sep"
  shows "splitLoop sep cur (replicate n x) = [cur @ replicate n x]"
  using assms by (induction n arbitrary: cur) (simp_all add: replicate_app_Cons_same)

lemma rawLines_long_line:
  assumes "0 < n"
  shows "rawLines (''1'' @ CHR 0x0A # replicate n CHR ''x'') = [''1'', replicate n CHR ''x'']"
proof -
  have "Split (''1'' @ CHR 0x0A # replicate n CHR ''x'') CHR 0x0A = [''1'', replicate n CHR ''x'']"
    by (simp add: Split_def splitLoop_replicate)
  moreover have "replicate n CHR ''x'' \<noteq> []"
    using assms by simp
  ultimately show ?thesis by (simp add: rawLines_def)
qed

text \<open>
  A line that does not match can still end the parse with an error: a text line of
  65536 bytes after the sequence number is not appended to the block, and
  \<^verbatim>\<open>ParseSRT\<close> returns \<^verbatim>\<open>bufio.ErrTooLong\<close> from \<^verbatim>\<open>scanner.Err()\<close>.
\<close>

theorem long_line_error_counterexample:
  "srtTimeRegex (TrimSpace (replicate 65536 CHR ''x'')) = None
   \<and> ParseSRTOn (''1'' @ CHR 0x0A # replicate 65536 CHR ''x'')
       = ([], Some (ScannerError ErrTooLong))"
proof -
  have a: "srtTimeRegex (TrimSpace (replicate 65536 CHR ''x'')) = None"
    by (simp only: TrimSpace_replicate_x srtTimeRegex_def FindStringSubmatch_replicate_x)
  have r: "rawLines (''1'' @ CHR 0x0A # replicate 65536 CHR ''x'')
      = [''1'', replicate 65536 CHR ''x'']"
    by (rule rawLines_long_line) simp
  have s: "scanLines (''1'' @ CHR 0x0A # replicate 65536 CHR ''x'') = ([''1''], Some ErrTooLong)"
    unfolding scanLines_def r
    by (simp add: MaxScanTokenSize_def dropCR_def)
  have p: "ParseSRT [''1''] (Some ErrTooLong) = ([], Some (ScannerError ErrTooLong))"
    by (simp add: ParseSRT_def srtStep_def srtInit_def flushBlock_def timing_line_facts)
  have "ParseSRTOn (''1'' @ CHR 0x0A # replicate 65536 CHR ''x'')
       = ([], Some (ScannerError ErrTooLong))"
    unfolding ParseSRTOn_def s by (simp add: p)
  with a show ?thesis by (rule conjI)
qed

text \<open>
  The first non-blank line of an SRT block is taken for the sequence number whatever it
  contains: alone in the input, the malformed timing line yields no caption.
\<close>

lemma sequence_number_line_discarded:
  "srtStep srtInit ''00:00:01-00:00:04'' = Inr (srtInit\<lparr>expectingSequence := False\<rparr>)"
  "ParseSRT [''00:00:01-00:00:04''] None = ([], None)"
  by (simp_all add: malformed_line_facts srtStep_def srtInit_def ParseSRT_def flushBlock_def)

section \<open>Properties of the text aggregator\<close>

lemma extractLoop_filter:
  "extractLoop textParts caps
     = textParts @ map Text (filter (\<lambda>c. TrimSpace (Text c) \<noteq> []) caps)"
  by (induction caps arbitrary: textParts) simp_all

lemma TrimSpace_examples:
  "TrimSpace '''' = []" "TrimSpace ''  '' = []"
  "TrimSpace ''Hello'' = ''Hello''" "TrimSpace ''World'' = ''World''"
  by code_simp+

text \<open>
  C9. \<^verbatim>\<open>ExtractAllText\<close> drops exactly the entries whose text is empty after
  white-space trimming and joins the untrimmed texts of the others with one ASCII space,
  in input order; it returns the empty string for an empty (or nil) input and for an
  input whose texts are all blank; the texts \<open>""\<close>, \<open>"  "\<close>, \<open>"Hello"\<close>, \<open>"World"\<close>
  aggregate to \<open>"Hello World"\<close>.
\<close>

theorem extract_all_text:
  "ExtractAllText caps = Join (map Text (filter (\<lambda>c. TrimSpace (Text c) \<noteq> []) caps)) '' ''
   \<and> ExtractAllText [] = []
   \<and> ((\<forall>c\<in>set caps. TrimSpace (Text c) = []) \<longrightarrow> ExtractAllText caps = [])
   \<and> ExtractAllText [entry s1 e1 '''', entry s2 e2 ''  '', entry s3 e3 ''Hello'',
        entry s4 e4 ''World''] = ''Hello World''"
proof (intro conjI impI)
  show "ExtractAllText caps = Join (map Text (filter (\<lambda>c. TrimSpace (Text c) \<noteq> []) caps)) '' ''"
    by (simp add: ExtractAllText_def extractLoop_filter)
next
  show "ExtractAllText [] = []"
    by (simp add: ExtractAllText_def)
next
  assume "\<forall>c\<in>set caps. TrimSpace (Text c) = []"
  then have "filter (\<lambda>c. TrimSpace (Text c) \<noteq> []) caps = []"
    by (induction caps) simp_all
  then show "ExtractAllText caps = []"
    by (simp add: ExtractAllText_def extractLoop_filter)
next
  show "ExtractAllText [entry s1 e1 '''', entry s2 e2 ''  '', entry s3 e3 ''Hello'',
        entry s4 e4 ''World''] = ''Hello World''"
    by (simp add: ExtractAllText_def entry_def TrimSpace_examples)
qed

theorem extract_all_text_witness:
  "TrimSpace (Text (entry 0 0 '''')) = [] \<and> TrimSpace (Text (entry 0 0 ''  '')) = []
   \<and> ExtractAllText [entry 0 0 '''', entry 0 0 ''  ''] = []"
proof -
  have h: "TrimSpace (Text (entry 0 0 '''')) = [] \<and> TrimSpace (Text (entry 0 0 ''  '')) = []"
    by (simp add: entry_def TrimSpace_examples)
  then have "\<forall>c\<in>set [entry 0 0 '''', entry 0 0 ''  '']. TrimSpace (Text c) = []"
    by simp
  with extract_all_text [of "[entry 0 0 '''', entry 0 0 ''  '']"]
  have "ExtractAllText [entry 0 0 '''', entry 0 0 ''  ''] = []"
    by blast
  with h show ?thesis by blast
qed

section \<open>The text of parsed captions\<close>

lemma flushBlock_ok:
  assumes "stateOk st"
  shows "stateOk (flushBlock st)"
proof (cases "textLines st = []")
  case True
  with assms show ?thesis by (simp add: flushBlock_def)
next
  case False
  with assms have "trimmedLine (Join (textLines st) '' '')"
    by (intro trimmedLine_Join) (simp_all add: stateOk_def)
  with assms False show ?thesis
    by (simp add: flushBlock_def stateOk_def Let_def)
qed

lemma timingOrText_ok:
  assumes "stateOk st" and "trimmedLine line"
    and "timingOrText timeRegex parseTime st line = Inr st'"
  shows "stateOk st'"
  using assms
  by (auto simp: timingOrText_def stateOk_def split: option.splits sum.splits)

lemma srtStep_ok:
  assumes "stateOk st" and "srtStep st l = Inr st'"
  shows "stateOk st'"
proof (cases "TrimSpace l = []")
  case True
  with assms(2) have "st' = (flushBlock st)\<lparr>expectingSequence := True\<rparr>"
    by (simp add: srtStep_def)
  moreover have "stateOk (flushBlock st)"
    using assms(1) by (rule flushBlock_ok)
  ultimately show ?thesis by (simp add: stateOk_def)
next
  case False
  then have t: "trimmedLine (TrimSpace l)"
    by (rule TrimSpace_trimmedLine)
  show ?thesis
  proof (cases "expectingSequence st")
    case True
    with False assms show ?thesis
      by (auto simp: srtStep_def stateOk_def)
  next
    case no: False
    with False assms(2)
    have "timingOrText srtTimeRegex parseSRTTime st (TrimSpace l) = Inr st'"
      by (simp add: srtStep_def)
    with assms(1) t show ?thesis by (rule timingOrText_ok)
  qed
qed

lemma vttStep_ok:
  assumes "stateOk st" and "vttStep st l = Inr st'"
  shows "stateOk st'"
proof -
  let ?line = "TrimSpace l"
  let ?st1 = "st\<lparr>inHeader := False\<rparr>"
  have ok1: "stateOk ?st1"
    using assms(1) by (simp add: stateOk_def)
  consider (skip) "st' = st"
    | (blank) "?line = []" "st' = flushBlock ?st1"
    | (other) "?line \<noteq> []" "timingOrText vttTimeRegex parseWebVTTTime ?st1 ?line = Inr st'"
    using assms(2) by (auto simp: vttStep_def Let_def split: if_splits)
  then show ?thesis
  proof cases
    case skip
    with assms(1) show ?thesis by simp
  next
    case blank
    with flushBlock_ok [OF ok1] show ?thesis by simp
  next
    case other
    from other(1) have "trimmedLine ?line"
      by (rule TrimSpace_trimmedLine)
    with ok1 show ?thesis using other(2) by (rule timingOrText_ok)
  qed
qed

lemma srtLoop_ok:
  assumes "stateOk st" and "srtLoop st scanned = Inr st'"
  shows "stateOk st'"
  using assms
proof (induction scanned arbitrary: st)
  case Nil
  then show ?case by simp
next
  case (Cons l rest)
  then show ?case
    by (auto split: sum.splits dest: srtStep_ok)
qed

lemma vttLoop_ok:
  assumes "stateOk st" and "vttLoop st scanned = Inr st'"
  shows "stateOk st'"
  using assms
proof (induction scanned arbitrary: st)
  case Nil
  then show ?case by simp
next
  case (Cons l rest)
  then show ?case
    by (auto split: sum.splits dest: vttStep_ok)
qed

lemma ParseSRT_trimmed:
  assumes "c \<in> set (fst (ParseSRT scanned scanErr))"
  shows "trimmedLine (Text c)"
proof (cases "srtLoop srtInit scanned")
  case (Inl err)
  with assms show ?thesis by (simp add: ParseSRT_def)
next
  case (Inr st)
  have "stateOk srtInit"
    by (simp add: stateOk_def srtInit_def)
  then have "stateOk st" using Inr by (rule srtLoop_ok)
  then have "stateOk (flushBlock st)" by (rule flushBlock_ok)
  with assms Inr show ?thesis by (simp add: ParseSRT_def stateOk_def)
qed

lemma ParseWebVTT_trimmed:
  assumes "c \<in> set (fst (ParseWebVTT scanned scanErr))"
  shows "trimmedLine (Text c)"
proof (cases "vttLoop vttInit scanned")
  case (Inl err)
  with assms show ?thesis by (simp add: ParseWebVTT_def)
next
  case (Inr st)
  have "stateOk vttInit"
    by (simp add: stateOk_def vttInit_def)
  then have "stateOk st" using Inr by (rule vttLoop_ok)
  then have "stateOk (flushBlock st)" by (rule flushBlock_ok)
  with assms Inr show ?thesis by (simp add: ParseWebVTT_def stateOk_def)
qed

lemma extractLoop_keeps_all:
  assumes "\<forall>c\<in>set caps. trimmedLine (Text c)"
  shows "extractLoop [] caps = map Text caps"
proof -
  have "filter (\<lambda>c. TrimSpace (Text c) \<noteq> []) caps = caps"
    using assms by (induction caps) (simp_all add: trimmedLine_TrimSpace)
  then show ?thesis by (simp add: extractLoop_filter)
qed

text \<open>
  C10. Every caption entry in the output of \<^verbatim>\<open>ParseSRT\<close> or \<^verbatim>\<open>ParseWebVTT\<close> has
  a text that is not empty and stays non-empty after white-space trimming; consequently
  \<^verbatim>\<open>ExtractAllText\<close> on a parser's output filters no entry out: it collects the text
  of every entry and returns their join.
\<close>

theorem parser_output_text_not_blank:
  "(\<forall>c\<in>set (fst (ParseSRT scanned scanErr)). Text c \<noteq> [] \<and> TrimSpace (Text c) \<noteq> [])
   \<and> (\<forall>c\<in>set (fst (ParseWebVTT scanned scanErr)). Text c \<noteq> [] \<and> TrimSpace (Text c) \<noteq> [])
   \<and> extractLoop [] (fst (ParseSRT scanned scanErr)) = map Text (fst (ParseSRT scanned scanErr))
   \<and> extractLoop [] (fst (ParseWebVTT scanned scanErr))
        = map Text (fst (ParseWebVTT scanned scanErr))
   \<and> ExtractAllText (fst (ParseSRT scanned scanErr))
        = Join (map Text (fst (ParseSRT scanned scanErr))) '' ''
   \<and> ExtractAllText (fst (ParseWebVTT scanned scanErr))
        = Join (map Text (fst (ParseWebVTT scanned scanErr))) '' ''"
proof -
  have s: "\<forall>c\<in>set (fst (ParseSRT scanned scanErr)). trimmedLine (Text c)"
    using ParseSRT_trimmed by blast
  have v: "\<forall>c\<in>set (fst (ParseWebVTT scanned scanErr)). trimmedLine (Text c)"
    using ParseWebVTT_trimmed by blast
  have ne: "trimmedLine t \<Longrightarrow> t \<noteq> [] \<and> TrimSpace t \<noteq> []" for t
    using trimmedLine_TrimSpace [of t] by (simp add: trimmedLine_def)
  from s v ne show ?thesis
    by (simp add: ExtractAllText_def extractLoop_keeps_all)
qed

lemma scenario_1:
  "fst (ParseSRT [''1'', ''00:00:01,000 --> 00:00:04,000'', ''Hello world'', '''',
       ''2'', ''00:00:05,000 --> 00:00:08,000'', ''Second line''] None)
     = [entry (secs 1) (secs 4) ''Hello world'', entry (secs 5) (secs 8) ''Second line'']"
  by code_simp

text \<open>A block that has only a timing line produces no entry.\<close>

lemma timing_only_block:
  "ParseSRT [''1'', ''00:00:01,000 --> 00:00:04,000'', '''', ''2''] None = ([], None)"
  "ParseWebVTT [''WEBVTT'', '''', ''00:00:01.000 --> 00:00:04.000'', ''''] None = ([], None)"
  by code_simp+

theorem parser_output_text_not_blank_witness:
  "entry (secs 1) (secs 4) ''Hello world''
     \<in> set (fst (ParseSRT [''1'', ''00:00:01,000 --> 00:00:04,000'', ''Hello world'', '''',
       ''2'', ''00:00:05,000 --> 00:00:08,000'', ''Second line''] None))
   \<and> TrimSpace ''Hello world'' \<noteq> []
   \<and> ExtractAllText (fst (ParseSRT [''1'', ''00:00:01,000 --> 00:00:04,000'', ''Hello world'',
         '''', ''2'', ''00:00:05,000 --> 00:00:08,000'', ''Second line''] None))
       = ''Hello world Second line''"
proof -
  let ?in = "[''1'', ''00:00:01,000 --> 00:00:04,000'', ''Hello world'', '''',
       ''2'', ''00:00:05,000 --> 00:00:08,000'', ''Second line'']"
  have m: "entry (secs 1) (secs 4) ''Hello world'' \<in> set (fst (ParseSRT ?in None))"
    unfolding scenario_1 by simp
  note t = parser_output_text_not_blank [of ?in None]
  from t m have "TrimSpace (Text (entry (secs 1) (secs 4) ''Hello world'')) \<noteq> []"
    by blast
  then have a: "TrimSpace ''Hello world'' \<noteq> []"
    by (simp add: entry_def)
  from t have "ExtractAllText (fst (ParseSRT ?in None)) = Join (map Text (fst (ParseSRT ?in None))) '' ''"
    by blast
  then have b: "ExtractAllText (fst (ParseSRT ?in None)) = ''Hello world Second line''"
    unfolding scenario_1 by (simp add: entry_def)
  from m a b show ?thesis by blast
qed

end
